theory Spec2Isabelle
  imports Complex_Main
begin

section \<open>Python values shared by the modules\<close>

text \<open>
  The embedding follows the backend of the microbial segmentation application
  (\<^verbatim>\<open>backend/app\<close>). Python integers are \<^typ>\<open>int\<close>, Python lists are
  HOL lists, and an exception is a value \<open>Inl e\<close> of a sum type. A parameter with a
  default value is an \<open>option\<close> argument: \<open>None\<close> is the call that omits it.
\<close>

datatype py_error = IndexError | KeyError | ValueError | ZeroDivisionError

text \<open>\<^verbatim>\<open>xs[i]\<close> on a list: a negative index counts from the end, an index out of
  range raises \<^verbatim>\<open>IndexError\<close>.\<close>

definition py_getitem :: "'a list \<Rightarrow> int \<Rightarrow> py_error + 'a" where
  "py_getitem xs i =
     (let n = int (length xs); j = (if i < 0 then i + n else i)
      in if 0 \<le> j \<and> j < n then Inr (xs ! nat j) else Inl IndexError)"

text \<open>\<^verbatim>\<open>range(a, b)\<close>: the integers from \<open>a\<close> up to but not including \<open>b\<close>.\<close>

definition py_range :: "int \<Rightarrow> int \<Rightarrow> int list" where
  "py_range a b = [a..b - 1]"

text \<open>A list comprehension \<^verbatim>\<open>[f(i) for i in is]\<close>: the elements are computed in
  order and the first exception ends the comprehension.\<close>

fun comprehension :: "('i \<Rightarrow> py_error + 'a) \<Rightarrow> 'i list \<Rightarrow> py_error + 'a list" where
  "comprehension f [] = Inr []"
| "comprehension f (i # rest) =
     (case f i of
        Inl e \<Rightarrow> Inl e
      | Inr x \<Rightarrow> (case comprehension f rest of Inl e \<Rightarrow> Inl e | Inr xs \<Rightarrow> Inr (x # xs)))"

text \<open>\<^verbatim>\<open>d[k]\<close> on a dict: a missing key raises \<^verbatim>\<open>KeyError\<close>.\<close>

definition py_lookup :: "('k \<rightharpoonup> 'v) \<Rightarrow> 'k \<Rightarrow> py_error + 'v" where
  "py_lookup d k = (case d k of None \<Rightarrow> Inl KeyError | Some v \<Rightarrow> Inr v)"


section \<open>video\_utils.py: temporal windows\<close>

text \<open>
  \<^verbatim>\<open>create_frame_sequence(all_frames, window_size=5)\<close>. The body of the
  \<^verbatim>\<open>for center_idx in range(half_window, len(all_frames) - half_window)\<close> loop builds
  the window by a comprehension over \<^verbatim>\<open>range(window_size)\<close> and appends the pair
  to \<^verbatim>\<open>sequences\<close>.
\<close>

fun window_loop ::
  "'a list \<Rightarrow> int \<Rightarrow> int \<Rightarrow> int list \<Rightarrow> (int \<times> 'a list) list
     \<Rightarrow> py_error + (int \<times> 'a list) list" where
  "window_loop all_frames window_size half_window [] sequences = Inr sequences"
| "window_loop all_frames window_size half_window (center_idx # rest) sequences =
     (case comprehension (\<lambda>i. py_getitem all_frames (center_idx - half_window + i))
             (py_range 0 window_size) of
        Inl e \<Rightarrow> Inl e
      | Inr window_frames \<Rightarrow>
          window_loop all_frames window_size half_window rest
            (sequences @ [(center_idx, window_frames)]))"

definition create_frame_sequence ::
  "'a list \<Rightarrow> int option \<Rightarrow> py_error + (int \<times> 'a list) list" where
  "create_frame_sequence all_frames window_size_arg =
     (let window_size = (case window_size_arg of None \<Rightarrow> 5 | Some w \<Rightarrow> w);
          half_window = window_size div 2
      in window_loop all_frames window_size half_window
           (py_range half_window (int (length all_frames) - half_window)) [])"


section \<open>job\_manager.py: the job registry\<close>

datatype JobStatus = QUEUED | RUNNING | COMPLETED | FAILED

datatype JobStage =
  UPLOAD | PREPROCESSING | INFERENCE | POSTPROCESSING | VIDEO_GENERATION | SAVING_RESULTS

text \<open>
  A job is a Python dict, an object on the heap that \<^verbatim>\<open>self.jobs\<close> refers to. The
  record below is the content of such a dict, one field per key. The value under
  \<^verbatim>\<open>"results"\<close> is itself a dict: the field holds the reference to it, which is what
  a shallow \<^verbatim>\<open>.copy()\<close> copies. Timestamps are the strings of
  \<^verbatim>\<open>datetime.now().isoformat()\<close>; every operation takes the clock readings it makes
  as arguments.
\<close>

type_synonym addr = nat

record job_dict =
  job_id :: string
  status :: JobStatus
  progress :: real
  stage :: JobStage
  message :: string
  file_type :: string
  filename :: string
  created_at :: string
  updated_at :: string
  error :: "string option"
  results :: "addr option"

text \<open>
  The state of the program as far as the registry is concerned: \<open>jobs\<close> is the dict
  \<^verbatim>\<open>self.jobs\<close> (job id to the reference of the job's dict), \<open>dicts\<close> is the store
  of job dicts (the registry's own and the copies handed to callers), \<open>payloads\<close> is
  the store of result dicts, whose content \<open>'p\<close> the registry never reads, and
  \<open>next_addr\<close> is the next unused reference. Every method body runs under
  \<^verbatim>\<open>with self.lock\<close>, so a method is one atomic step.
\<close>

record 'p manager =
  jobs :: "string \<rightharpoonup> addr"
  dicts :: "addr \<rightharpoonup> job_dict"
  payloads :: "addr \<rightharpoonup> 'p"
  next_addr :: addr

text \<open>\<^verbatim>\<open>JobManager.__init__\<close>: no jobs; the result dicts of the callers are given.\<close>

definition new_manager :: "(addr \<rightharpoonup> 'p) \<Rightarrow> 'p manager" where
  "new_manager ps = \<lparr>jobs = Map.empty, dicts = Map.empty, payloads = ps, next_addr = 0\<rparr>"

text \<open>A new dict object (a dict display or \<^verbatim>\<open>.copy()\<close>) gets the next unused
  reference.\<close>

definition new_dict :: "job_dict \<Rightarrow> 'p manager \<Rightarrow> addr \<times> 'p manager" where
  "new_dict d m =
     (next_addr m, m\<lparr>dicts := (dicts m)(next_addr m \<mapsto> d), next_addr := Suc (next_addr m)\<rparr>)"

text \<open>\<^verbatim>\<open>create_job\<close>: the new dict is stored under the id by a plain assignment
  \<^verbatim>\<open>self.jobs[job_id] = {...}\<close>, and a copy of it is returned.\<close>

definition create_job ::
  "string \<Rightarrow> string \<Rightarrow> string \<Rightarrow> string \<Rightarrow> string \<Rightarrow> 'p manager \<Rightarrow> addr \<times> 'p manager" where
  "create_job jid ftype fname now1 now2 m =
     (let d = \<lparr>job_id = jid, status = QUEUED, progress = 0, stage = UPLOAD,
               message = ''Job queued'', file_type = ftype, filename = fname,
               created_at = now1, updated_at = now2, error = None, results = None\<rparr>;
          (a, m1) = new_dict d m;
          m2 = m1\<lparr>jobs := (jobs m1)(jid \<mapsto> a)\<rparr>
      in new_dict d m2)"

text \<open>\<^verbatim>\<open>update_job\<close>: an unknown id returns at once; otherwise each argument that is
  not \<^verbatim>\<open>None\<close> is assigned to its key of the registry's dict, in the order of the
  source, and \<^verbatim>\<open>updated_at\<close> last.\<close>

definition update_job ::
  "string \<Rightarrow> JobStatus option \<Rightarrow> real option \<Rightarrow> JobStage option \<Rightarrow> string option
     \<Rightarrow> string option \<Rightarrow> addr option \<Rightarrow> string \<Rightarrow> 'p manager \<Rightarrow> 'p manager" where
  "update_job jid status_arg progress_arg stage_arg message_arg error_arg results_arg now m =
     (case jobs m jid of
        None \<Rightarrow> m
      | Some a \<Rightarrow>
          (case dicts m a of
             None \<Rightarrow> m
           | Some job \<Rightarrow>
               (let job1 = (case status_arg of None \<Rightarrow> job | Some s \<Rightarrow> job\<lparr>status := s\<rparr>);
                    job2 = (case progress_arg of None \<Rightarrow> job1 | Some p \<Rightarrow> job1\<lparr>progress := p\<rparr>);
                    job3 = (case stage_arg of None \<Rightarrow> job2 | Some g \<Rightarrow> job2\<lparr>stage := g\<rparr>);
                    job4 = (case message_arg of None \<Rightarrow> job3 | Some t \<Rightarrow> job3\<lparr>message := t\<rparr>);
                    job5 = (case error_arg of None \<Rightarrow> job4 | Some e \<Rightarrow> job4\<lparr>error := Some e\<rparr>);
                    job6 = (case results_arg of None \<Rightarrow> job5 | Some r \<Rightarrow> job5\<lparr>results := Some r\<rparr>)
                in m\<lparr>dicts := (dicts m)(a \<mapsto> job6\<lparr>updated_at := now\<rparr>)\<rparr>)))"

text \<open>\<^verbatim>\<open>get_job\<close>: \<^verbatim>\<open>None\<close> for an unknown id, otherwise a shallow copy of the job's
  dict, which is a new dict object.\<close>

definition get_job :: "string \<Rightarrow> 'p manager \<Rightarrow> addr option \<times> 'p manager" where
  "get_job jid m =
     (case jobs m jid of
        None \<Rightarrow> (None, m)
      | Some a \<Rightarrow>
          (case dicts m a of
             None \<Rightarrow> (None, m)
           | Some job \<Rightarrow> (let (c, m1) = new_dict job m in (Some c, m1))))"

definition mark_failed :: "string \<Rightarrow> string \<Rightarrow> string \<Rightarrow> 'p manager \<Rightarrow> 'p manager" where
  "mark_failed jid err now m =
     update_job jid (Some FAILED) (Some 100) None None (Some err) None now m"

definition mark_completed :: "string \<Rightarrow> addr \<Rightarrow> string \<Rightarrow> 'p manager \<Rightarrow> 'p manager" where
  "mark_completed jid res now m =
     update_job jid (Some COMPLETED) (Some 100) (Some SAVING_RESULTS)
       (Some ''Processing completed'') None (Some res) now m"

text \<open>What a reader of the registry sees under an id: the content of the job's dict,
  and its status.\<close>

definition lookup_job :: "'p manager \<Rightarrow> string \<Rightarrow> job_dict option" where
  "lookup_job m jid = (case jobs m jid of None \<Rightarrow> None | Some a \<Rightarrow> dicts m a)"

definition job_status :: "'p manager \<Rightarrow> string \<Rightarrow> JobStatus option" where
  "job_status m jid = map_option status (lookup_job m jid)"

text \<open>Calls of the registry's methods, to speak about sequences of them.\<close>

datatype registry_call =
  Create string string string string string
| Update string "JobStatus option" "real option" "JobStage option" "string option"
    "string option" "addr option" string
| MarkFailed string string string
| MarkCompleted string addr string
| Get string

fun call :: "registry_call \<Rightarrow> 'p manager \<Rightarrow> 'p manager" where
  "call (Create jid ftype fname now1 now2) m = snd (create_job jid ftype fname now1 now2 m)"
| "call (Update jid s p g t e r now) m = update_job jid s p g t e r now m"
| "call (MarkFailed jid err now) m = mark_failed jid err now m"
| "call (MarkCompleted jid res now) m = mark_completed jid res now m"
| "call (Get jid) m = snd (get_job jid m)"

fun calls :: "registry_call list \<Rightarrow> 'p manager \<Rightarrow> 'p manager" where
  "calls [] m = m"
| "calls (c # cs) m = calls cs (call c m)"

text \<open>The states the proofs are about: distinct ids have distinct dicts, every dict of
  the registry is allocated, and references from \<open>next_addr\<close> on are unused by the
  registry. A new manager is such a state and every call keeps it.\<close>

definition manager_inv :: "'p manager \<Rightarrow> bool" where
  "manager_inv m \<longleftrightarrow>
     inj_on (jobs m) (dom (jobs m))
     \<and> (\<forall>jid a. jobs m jid = Some a \<longrightarrow> a < next_addr m \<and> dicts m a \<noteq> None)"

text \<open>The status a call writes into the job of a given id, if it writes one:
  \<^verbatim>\<open>create_job\<close> writes Queued, \<^verbatim>\<open>update_job\<close> its \<^verbatim>\<open>status\<close> argument,
  \<^verbatim>\<open>mark_failed\<close> and \<^verbatim>\<open>mark_completed\<close> the status they pass on.\<close>

fun written_status :: "string \<Rightarrow> registry_call \<Rightarrow> JobStatus option" where
  "written_status jid (Create jid' ftype fname now1 now2) =
     (if jid' = jid then Some QUEUED else None)"
| "written_status jid (Update jid' s p g t e r now) = (if jid' = jid then s else None)"
| "written_status jid (MarkFailed jid' err now) = (if jid' = jid then Some FAILED else None)"
| "written_status jid (MarkCompleted jid' res now) =
     (if jid' = jid then Some COMPLETED else None)"
| "written_status jid (Get jid') = None"

definition terminal :: "JobStatus \<Rightarrow> bool" where
  "terminal s \<longleftrightarrow> s = COMPLETED \<or> s = FAILED"

text \<open>A registry used in the examples: the job \<^verbatim>\<open>job-1\<close> was created and then
  marked completed with the result dict at reference 7.\<close>

definition completed_example :: "nat manager" where
  "completed_example =
     mark_completed ''job-1'' 7 ''t1''
       (snd (create_job ''job-1'' ''video'' ''a.mp4'' ''t0'' ''t0'' (new_manager [7 \<mapsto> 42])))"


section \<open>Floating-point values and operations\<close>

text \<open>
  Python and NumPy floats are IEEE doubles. A float value is modelled as the real number
  it denotes, or one of the three special values. A comparison of two floats is exact,
  so the comparisons are defined here, with the IEEE rules for the special values (every
  comparison with \<open>NaN\<close> is false).
\<close>

datatype np_float = Fin real | PInf | NInf | NaN

text \<open>\<^verbatim>\<open>x > y\<close>, \<^verbatim>\<open>x >= y\<close> and \<^verbatim>\<open>x < y\<close> on floats.\<close>

fun fgt :: "np_float \<Rightarrow> np_float \<Rightarrow> bool" where
  "fgt (Fin x) (Fin y) = (x > y)"
| "fgt NaN y = False"
| "fgt x NaN = False"
| "fgt PInf PInf = False"
| "fgt PInf y = True"
| "fgt x PInf = False"
| "fgt NInf y = False"
| "fgt x NInf = True"

fun fge :: "np_float \<Rightarrow> np_float \<Rightarrow> bool" where
  "fge (Fin x) (Fin y) = (x \<ge> y)"
| "fge NaN y = False"
| "fge x NaN = False"
| "fge PInf y = True"
| "fge x NInf = True"
| "fge x y = False"

definition flt :: "np_float \<Rightarrow> np_float \<Rightarrow> bool" where
  "flt x y = fgt y x"

text \<open>
  The operations that round are not fixed by the model. The conversion of a Python
  integer to a float, the sum, product and quotient of two floats, and the NumPy
  functions \<^verbatim>\<open>np.log\<close>, \<^verbatim>\<open>np.mean\<close> and \<^verbatim>\<open>np.std\<close> (of a list of floats) are the
  fields of a record, which every function of the program that computes with floats
  takes as its first argument \<open>fl\<close>. A theorem stated for every \<open>fl\<close> holds of the
  arithmetic of the machine, whatever its rounding.

  Two things a Python float operation can raise are outside this record. The conversion
  of an integer raises \<^verbatim>\<open>OverflowError\<close> when the integer is beyond the float range
  (from \<open>2^1024 - 2^970\<close> on); pixel counts and image coordinates are far below, and the
  theorems about lists of integers given by a caller bound them. A division raises
  \<^verbatim>\<open>ZeroDivisionError\<close> when the divisor is zero; where the program divides floats the
  divisor is a positive float, or a non-negative integer plus \<^verbatim>\<open>1e-6\<close>, except for the
  division by \<^verbatim>\<open>fps\<close>, where the exception is a branch of the model.
\<close>

record float_ops =
  f_int :: "int \<Rightarrow> np_float"
  f_add :: "np_float \<Rightarrow> np_float \<Rightarrow> np_float"
  f_mul :: "np_float \<Rightarrow> np_float \<Rightarrow> np_float"
  f_div :: "np_float \<Rightarrow> np_float \<Rightarrow> np_float"
  np_log :: "np_float \<Rightarrow> np_float"
  np_mean :: "np_float list \<Rightarrow> np_float"
  np_std :: "np_float list \<Rightarrow> np_float"

text \<open>The float that the literal \<^verbatim>\<open>1e-6\<close> denotes: the double nearest to \<open>10^-6\<close>,
  which is \<open>4722366482869645 / 2^72\<close>.\<close>

definition lit_1e_6 :: np_float where
  "lit_1e_6 = Fin (4722366482869645 / 2 ^ 72)"

text \<open>The integers that \<^verbatim>\<open>float\<close> converts without raising, among the non-negative
  ones: the values a biomass can take.\<close>

definition biomass_value :: "int \<Rightarrow> bool" where
  "biomass_value x = (0 \<le> x \<and> x < 2 ^ 1024 - 2 ^ 970)"


section \<open>Real arithmetic as an instance\<close>

text \<open>
  The arithmetic without rounding: every operation gives the exact real result on
  finite values and follows IEEE 754 on the special values (an undefined form is
  \<open>NaN\<close>, and \<open>NaN\<close> propagates); the logarithm of zero is \<open>-inf\<close>; the mean is the sum
  divided by the count and the standard deviation is the square root of the mean of the
  squared deviations from the mean (the population standard deviation, \<^verbatim>\<open>ddof=0\<close>).
  It is the instance at which the examples are evaluated; they are chosen so that
  their outcome is far from any threshold, and rounding does not change it.
\<close>

fun fneg :: "np_float \<Rightarrow> np_float" where
  "fneg (Fin x) = Fin (- x)"
| "fneg PInf = NInf"
| "fneg NInf = PInf"
| "fneg NaN = NaN"

fun fadd :: "np_float \<Rightarrow> np_float \<Rightarrow> np_float" where
  "fadd (Fin x) (Fin y) = Fin (x + y)"
| "fadd NaN y = NaN"
| "fadd x NaN = NaN"
| "fadd PInf NInf = NaN"
| "fadd NInf PInf = NaN"
| "fadd PInf y = PInf"
| "fadd x PInf = PInf"
| "fadd NInf y = NInf"
| "fadd x NInf = NInf"

definition fsub :: "np_float \<Rightarrow> np_float \<Rightarrow> np_float" where
  "fsub x y = fadd x (fneg y)"

text \<open>The sign of a value that is not \<open>NaN\<close>, for the products and quotients with an
  infinity.\<close>

fun fsign :: "np_float \<Rightarrow> int" where
  "fsign (Fin x) = (if x > 0 then 1 else if x < 0 then - 1 else 0)"
| "fsign PInf = 1"
| "fsign NInf = - 1"
| "fsign NaN = 0"

fun fmul :: "np_float \<Rightarrow> np_float \<Rightarrow> np_float" where
  "fmul (Fin x) (Fin y) = Fin (x * y)"
| "fmul NaN y = NaN"
| "fmul x NaN = NaN"
| "fmul x y =
     (if fsign x * fsign y > 0 then PInf else if fsign x * fsign y < 0 then NInf else NaN)"

text \<open>The quotient, for a divisor that is not zero (the sign of a zero is not part of
  the values, so a quotient by zero is left as \<open>NaN\<close>).\<close>

fun fdiv :: "np_float \<Rightarrow> np_float \<Rightarrow> np_float" where
  "fdiv (Fin x) (Fin y) = (if y = 0 then NaN else Fin (x / y))"
| "fdiv NaN y = NaN"
| "fdiv x NaN = NaN"
| "fdiv (Fin x) y = Fin 0"
| "fdiv x (Fin y) =
     (if fsign x * fsign (Fin y) > 0 then PInf
      else if fsign x * fsign (Fin y) < 0 then NInf else NaN)"
| "fdiv x y = NaN"

text \<open>Division by a positive count, as in the mean.\<close>

fun fdiv_count :: "np_float \<Rightarrow> nat \<Rightarrow> np_float" where
  "fdiv_count (Fin x) n = Fin (x / real n)"
| "fdiv_count y n = y"

fun fsqrt :: "np_float \<Rightarrow> np_float" where
  "fsqrt (Fin x) = (if x < 0 then NaN else Fin (sqrt x))"
| "fsqrt PInf = PInf"
| "fsqrt NInf = NaN"
| "fsqrt NaN = NaN"

fun flog :: "np_float \<Rightarrow> np_float" where
  "flog (Fin x) = (if x > 0 then Fin (ln x) else if x = 0 then NInf else NaN)"
| "flog PInf = PInf"
| "flog NInf = NaN"
| "flog NaN = NaN"

definition fsum :: "np_float list \<Rightarrow> np_float" where
  "fsum xs = foldl fadd (Fin 0) xs"

definition fmean :: "np_float list \<Rightarrow> np_float" where
  "fmean xs = (if xs = [] then NaN else fdiv_count (fsum xs) (length xs))"

definition fstd :: "np_float list \<Rightarrow> np_float" where
  "fstd xs =
     (let m = fmean xs
      in fsqrt (fmean (map (\<lambda>x. fmul (fsub x m) (fsub x m)) xs)))"

definition real_ops :: float_ops where
  "real_ops =
     \<lparr>f_int = (\<lambda>n. Fin (real_of_int n)), f_add = fadd, f_mul = fmul, f_div = fdiv,
      np_log = flog, np_mean = fmean, np_std = fstd\<rparr>"

section \<open>postprocessing.py: phenotype classification\<close>

text \<open>
  A region of \<^verbatim>\<open>skimage.measure.regionprops\<close>, with the properties the module reads:
  the label, the pixel count \<^verbatim>\<open>area\<close>, the bounding box
  \<^verbatim>\<open>(min_row, min_col, max_row, max_col)\<close> (half-open), the axis lengths of the
  ellipse with the same second moments, the solidity (\<open>None\<close> when the region object
  has no such attribute) and the centroid.
\<close>

record region =
  label :: nat
  area :: nat
  bbox :: "int \<times> int \<times> int \<times> int"
  major_axis_length :: real
  minor_axis_length :: real
  solidity :: "real option"
  centroid :: "real \<times> real"

text \<open>\<^verbatim>\<open>classify_phenotype(region)\<close>, branch by branch. The two quotients are float
  divisions; the comparisons of the aspect ratio are float comparisons. The thresholds
  \<^verbatim>\<open>1.8\<close> and \<^verbatim>\<open>0.8\<close> stand for the doubles nearest to them, which are the least
  doubles above them, so for a float the comparisons \<^verbatim>\<open>< 1.8\<close> and \<^verbatim>\<open>>= 0.8\<close> come
  out as the comparisons with the decimal numbers.\<close>

definition classify_phenotype :: "float_ops \<Rightarrow> region \<Rightarrow> string" where
  "classify_phenotype fl region =
     (let aspect_ratio =
            (if minor_axis_length region > 0
             then f_div fl (Fin (major_axis_length region)) (Fin (minor_axis_length region))
             else (case bbox region of (minr, minc, maxr, maxc) \<Rightarrow>
                     let height = maxr - minr; width = maxc - minc
                     in f_div fl (f_int fl (max height width))
                          (f_add fl (f_int fl (min height width)) lit_1e_6)));
          area = area region;
          solidity = (case solidity region of Some s \<Rightarrow> s | None \<Rightarrow> 1)
      in if fge aspect_ratio (Fin 3) then ''elongated''
         else if fge aspect_ratio (Fin 2) \<and> flt aspect_ratio (Fin 3) then
           (if area > 200 then ''rod_like'' else ''other'')
         else if flt aspect_ratio (Fin (18 / 10)) \<and> solidity \<ge> 8 / 10 then ''compact''
         else ''other'')"

text \<open>The rule chain as the specification words it: five rules, the first that matches
  decides.\<close>

definition spec_rule_chain :: "np_float \<Rightarrow> nat \<Rightarrow> real \<Rightarrow> string" where
  "spec_rule_chain ratio pixels solid =
     (if fge ratio (Fin 3) then ''elongated''
      else if fge ratio (Fin 2) \<and> flt ratio (Fin 3) \<and> pixels > 200 then ''rod_like''
      else if fge ratio (Fin 2) \<and> flt ratio (Fin 3) \<and> pixels \<le> 200 then ''other''
      else if flt ratio (Fin (18 / 10)) \<and> solid \<ge> 8 / 10 then ''compact''
      else ''other'')"

text \<open>The aspect ratio that the code computes: the quotient of the major by the minor
  axis length when the minor axis length is positive, and otherwise, for the height \<open>h\<close>
  and the width \<open>w\<close> of the bounding box, the quotient of \<open>max h w\<close> by the sum
  \<open>min h w + 1e-6\<close>.\<close>

definition code_aspect_ratio :: "float_ops \<Rightarrow> region \<Rightarrow> np_float" where
  "code_aspect_ratio fl region =
     (if minor_axis_length region > 0
      then f_div fl (Fin (major_axis_length region)) (Fin (minor_axis_length region))
      else (case bbox region of (minr, minc, maxr, maxc) \<Rightarrow>
              f_div fl (f_int fl (max (maxr - minr) (maxc - minc)))
                (f_add fl (f_int fl (min (maxr - minr) (maxc - minc))) lit_1e_6)))"

text \<open>The aspect ratio as the specification words it: major over minor axis length, or
  the ratio of the long to the short side of the bounding box when the minor axis length
  is 0.\<close>

definition spec_aspect_ratio :: "float_ops \<Rightarrow> region \<Rightarrow> np_float" where
  "spec_aspect_ratio fl region =
     (if minor_axis_length region = 0
      then (case bbox region of (minr, minc, maxr, maxc) \<Rightarrow>
              f_div fl (f_int fl (max (maxr - minr) (maxc - minc)))
                (f_int fl (min (maxr - minr) (maxc - minc))))
      else f_div fl (Fin (major_axis_length region)) (Fin (minor_axis_length region)))"

text \<open>The region of three pixels in a row, \<open>(0,0), (0,1), (0,2)\<close>: its pixels are
  collinear, so its minor axis length is 0; its bounding box is 1 by 3.\<close>

definition line3_region :: region where
  "line3_region =
     \<lparr>label = 1, area = 3, bbox = (0, 0, 1, 3), major_axis_length = 4 * sqrt (2 / 3),
      minor_axis_length = 0, solidity = Some 1, centroid = (0, 1)\<rparr>"


section \<open>postprocessing.py: division events\<close>

text \<open>
  \<^verbatim>\<open>detect_division_events\<close>. The first loop,
  \<^verbatim>\<open>for i in range(1, len(biomass_history))\<close>, appends one growth rate per step; its
  indices \<open>i - 1\<close> and \<open>i\<close> are within the list by the bounds of the range. The same
  loop stands in \<^verbatim>\<open>_run_inference_pipeline\<close>.
\<close>

fun growth_rates_loop :: "float_ops \<Rightarrow> int list \<Rightarrow> nat list \<Rightarrow> np_float list \<Rightarrow> np_float list" where
  "growth_rates_loop fl biomass_history [] growth_rates = growth_rates"
| "growth_rates_loop fl biomass_history (i # rest) growth_rates =
     (if biomass_history ! (i - 1) > 0
      then growth_rates_loop fl biomass_history rest
             (growth_rates @
                [np_log fl
                  (f_div fl (f_int fl (biomass_history ! i))
                     (f_add fl (f_int fl (biomass_history ! (i - 1))) lit_1e_6))])
      else growth_rates_loop fl biomass_history rest (growth_rates @ [Fin 0]))"

text \<open>The second loop, \<^verbatim>\<open>for i in range(1, len(growth_rates))\<close>. The index
  \<open>frame_idx\<close> into \<^verbatim>\<open>component_counts\<close> is read only under the guard
  \<^verbatim>\<open>frame_idx < len(component_counts) and frame_idx > 0\<close>.\<close>

fun events_loop ::
  "float_ops \<Rightarrow> np_float list \<Rightarrow> np_float \<Rightarrow> np_float \<Rightarrow> int list \<Rightarrow> np_float \<Rightarrow> int
     \<Rightarrow> nat list \<Rightarrow> nat list \<Rightarrow> nat list" where
  "events_loop fl growth_rates mean_rate std_rate component_counts growth_spike_std
     component_increase_threshold [] division_events = division_events"
| "events_loop fl growth_rates mean_rate std_rate component_counts growth_spike_std
     component_increase_threshold (i # rest) division_events =
     (let frame_idx = i + 1;
          growth_spike =
            (if fgt std_rate (Fin 0)
             then fgt (growth_rates ! i)
                    (f_add fl mean_rate (f_mul fl growth_spike_std std_rate))
             else False);
          component_increase =
            (if frame_idx < length component_counts \<and> frame_idx > 0
             then component_counts ! frame_idx - component_counts ! (frame_idx - 1)
                    \<ge> component_increase_threshold
             else False)
      in events_loop fl growth_rates mean_rate std_rate component_counts growth_spike_std
           component_increase_threshold rest
           (if growth_spike \<or> component_increase then division_events @ [frame_idx]
            else division_events))"

definition detect_division_events ::
  "float_ops \<Rightarrow> int list \<Rightarrow> int list \<Rightarrow> np_float option \<Rightarrow> int option \<Rightarrow> nat list" where
  "detect_division_events fl biomass_history component_counts growth_spike_std_arg
     component_increase_threshold_arg =
     (let growth_spike_std = (case growth_spike_std_arg of None \<Rightarrow> Fin 1 | Some k \<Rightarrow> k);
          component_increase_threshold =
            (case component_increase_threshold_arg of None \<Rightarrow> 1 | Some t \<Rightarrow> t)
      in if length biomass_history < 3 then []
         else
           (let growth_rates =
                  growth_rates_loop fl biomass_history [1..<length biomass_history] []
            in if length growth_rates = 0 then []
               else
                 (let mean_rate = np_mean fl growth_rates;
                      std_rate = np_std fl growth_rates
                  in events_loop fl growth_rates mean_rate std_rate component_counts
                       growth_spike_std component_increase_threshold
                       [1..<length growth_rates] [])))"

text \<open>The growth rates as the specification words them: for \<open>i = 1, ..., n - 1\<close>, in
  this order, the rate \<open>log (b[i] / (b[i-1] + 1e-6))\<close>, and 0 where \<open>b[i-1] = 0\<close>.\<close>

definition spec_growth_rates :: "float_ops \<Rightarrow> int list \<Rightarrow> np_float list" where
  "spec_growth_rates fl b =
     map (\<lambda>i. if b ! (i - 1) = 0 then Fin 0
              else np_log fl (f_div fl (f_int fl (b ! i))
                                (f_add fl (f_int fl (b ! (i - 1))) lit_1e_6)))
       [1..<length b]"

text \<open>The condition of the specification for an event at \<open>frame_idx = i + 1\<close>, for the
  list \<open>g\<close> of growth rates: the standard deviation of \<open>g\<close> is positive and \<open>g[i]\<close> is
  above the mean by more than \<open>growth_spike_std\<close> standard deviations, or \<open>frame_idx\<close>
  is an index of \<open>c\<close> and the component count rises by at least the threshold.\<close>

definition spec_event :: "float_ops \<Rightarrow> np_float list \<Rightarrow> int list \<Rightarrow> np_float \<Rightarrow> int \<Rightarrow> nat \<Rightarrow> bool" where
  "spec_event fl g c k t i =
     ((fgt (np_std fl g) (Fin 0)
         \<and> fgt (g ! i) (f_add fl (np_mean fl g) (f_mul fl k (np_std fl g))))
      \<or> (Suc i < length c \<and> c ! Suc i - c ! i \<ge> t))"

text \<open>The values of \<^verbatim>\<open>config.py\<close> for the detector,
  \<^verbatim>\<open>DIVISION_GROWTH_SPIKE_STD = 2.0  # growth_rate > mean + 2*std\<close> and
  \<^verbatim>\<open>DIVISION_COMPONENT_INCREASE = 1\<close>; the pipeline passes the same two values.\<close>

definition DIVISION_GROWTH_SPIKE_STD :: np_float where
  "DIVISION_GROWTH_SPIKE_STD = Fin 2"

definition DIVISION_COMPONENT_INCREASE :: int where
  "DIVISION_COMPONENT_INCREASE = 1"


section \<open>inference.py: the metrics of a run\<close>

text \<open>
  The part of \<^verbatim>\<open>_run_inference_pipeline\<close> that leads from the frames to the metrics
  table. The work on one window (building the input tensor, the forward pass of the
  network, thresholding, \<^verbatim>\<open>clean_mask\<close> and \<^verbatim>\<open>analyze_frame\<close>) is the parameter
  \<open>analyse\<close>, a function of the window that returns the biomass, the phenotype counts
  and the component list; progress reports, rendering and file output are left out.
  A column of the table is a list of integers or of floats.
\<close>

datatype column = Ints "int list" | Floats "np_float list"

fun column_length :: "column \<Rightarrow> nat" where
  "column_length (Ints xs) = length xs"
| "column_length (Floats xs) = length xs"

text \<open>\<^verbatim>\<open>pd.DataFrame(metrics_data)\<close> of a dict of lists: the columns must have one
  length, which is the number of rows; otherwise pandas raises \<^verbatim>\<open>ValueError\<close>.\<close>

definition data_frame_rows :: "(string \<times> column) list \<Rightarrow> py_error + nat" where
  "data_frame_rows metrics_data =
     (case metrics_data of
        [] \<Rightarrow> Inr 0
      | (name, col) # rest \<Rightarrow>
          (if list_all (\<lambda>(name', col'). column_length col' = column_length col) rest
           then Inr (column_length col) else Inl ValueError))"

text \<open>\<^verbatim>\<open>[i / fps for i in range(n)]\<close>: dividing by a zero \<^verbatim>\<open>fps\<close> raises.\<close>

definition time_column :: "float_ops \<Rightarrow> nat \<Rightarrow> np_float \<Rightarrow> py_error + np_float list" where
  "time_column fl n fps =
     comprehension
       (\<lambda>i. if fps = Fin 0 then Inl ZeroDivisionError
            else Inr (f_div fl (f_int fl (int i)) fps))
       [0..<n]"

text \<open>The growth rates of the run: the loop of \<^verbatim>\<open>detect_division_events\<close> again, and
  then \<^verbatim>\<open>growth_rates.insert(0, 0.0)\<close>.\<close>

definition pipeline_growth_rates :: "float_ops \<Rightarrow> int list \<Rightarrow> np_float list" where
  "pipeline_growth_rates fl all_biomass =
     Fin 0 # growth_rates_loop fl all_biomass [1..<length all_biomass] []"

record pipeline_result =
  n_frames :: nat
  division_events :: "nat list"
  metrics_data :: "(string \<times> column) list"
  csv_rows :: nat

definition run_inference_pipeline ::
  "float_ops \<Rightarrow> ('f list \<Rightarrow> int \<times> (string \<rightharpoonup> int) \<times> 'c list) \<Rightarrow> ('m \<Rightarrow> int) \<Rightarrow> 'f list
     \<Rightarrow> 'm list option \<Rightarrow> np_float \<Rightarrow> py_error + pipeline_result" where
  "run_inference_pipeline fl analyse mask_area frames_normalized gt_masks fps =
     (case create_frame_sequence frames_normalized (Some 5) of
        Inl e \<Rightarrow> Inl e
      | Inr sequences \<Rightarrow>
          (let total_frames = length sequences;
               analysed = map (\<lambda>(center_idx, window_frames). analyse window_frames) sequences;
               all_biomass = map fst analysed;
               all_phenotype_counts = map (fst \<circ> snd) analysed;
               all_components_list = map (snd \<circ> snd) analysed;
               component_counts = map (\<lambda>comps. int (length comps)) all_components_list;
               events = detect_division_events fl all_biomass component_counts
                          (Some (Fin 2)) (Some 1);
               growth_rates = pipeline_growth_rates fl all_biomass;
               n = length all_biomass
           in case time_column fl n fps of
                Inl e \<Rightarrow> Inl e
              | Inr time_col \<Rightarrow>
             (case comprehension (\<lambda>pc. py_lookup pc ''rod_like'') all_phenotype_counts of
                Inl e \<Rightarrow> Inl e
              | Inr rod_like_col \<Rightarrow>
             (case comprehension (\<lambda>pc. py_lookup pc ''elongated'') all_phenotype_counts of
                Inl e \<Rightarrow> Inl e
              | Inr elongated_col \<Rightarrow>
             (case comprehension (\<lambda>pc. py_lookup pc ''compact'') all_phenotype_counts of
                Inl e \<Rightarrow> Inl e
              | Inr compact_col \<Rightarrow>
             (case comprehension (\<lambda>pc. py_lookup pc ''other'') all_phenotype_counts of
                Inl e \<Rightarrow> Inl e
              | Inr other_col \<Rightarrow>
                  (let table =
                         [(''frame'', Ints (map int [0..<n])),
                          (''time'', Floats time_col),
                          (''area_pred'', Ints all_biomass),
                          (''growth_pred'', Floats growth_rates),
                          (''component_count'', Ints component_counts),
                          (''rod_like'', Ints rod_like_col),
                          (''elongated'', Ints elongated_col),
                          (''compact'', Ints compact_col),
                          (''other'', Ints other_col),
                          (''division_like'',
                             Ints (map (\<lambda>i. if i \<in> set events then 1 else 0) [0..<n]))];
                       table_gt =
                         (case gt_masks of
                            None \<Rightarrow> table
                          | Some masks \<Rightarrow>
                              if masks = [] then table
                              else table @
                                [(''area_gt'',
                                  Ints (map (\<lambda>(center_idx, window_frames).
                                               if center_idx < int (length masks)
                                               then mask_area (masks ! nat center_idx)
                                               else 0) sequences))])
                   in case data_frame_rows table_gt of
                        Inl e \<Rightarrow> Inl e
                      | Inr rows \<Rightarrow>
                          Inr \<lparr>n_frames = total_frames, division_events = events,
                               metrics_data = table_gt, csv_rows = rows\<rparr>)))))))"

text \<open>For a run on identical frames: the growth rate between two analysed frames of
  the same biomass, \<^verbatim>\<open>np.log(bm / (bm + 1e-6))\<close>, and the growth-spike condition of the
  detector on a list of \<open>n\<close> such rates.\<close>

definition constant_rate :: "float_ops \<Rightarrow> int \<Rightarrow> np_float" where
  "constant_rate fl bm = np_log fl (f_div fl (f_int fl bm) (f_add fl (f_int fl bm) lit_1e_6))"

definition constant_spike :: "float_ops \<Rightarrow> int \<Rightarrow> nat \<Rightarrow> np_float \<Rightarrow> bool" where
  "constant_spike fl bm n k =
     (let g = replicate n (constant_rate fl bm)
      in fgt (np_std fl g) (Fin 0)
         \<and> fgt (constant_rate fl bm) (f_add fl (np_mean fl g) (f_mul fl k (np_std fl g))))"

text \<open>The analysis of a window whose cleaned mask is the all-ones mask of a 2 by 2
  image: 4 foreground pixels in one component, which is compact.\<close>

definition all_ones_analysis :: "nat list \<Rightarrow> int \<times> (string \<rightharpoonup> int) \<times> nat list" where
  "all_ones_analysis window_frames =
     (4, [''rod_like'' \<mapsto> 0, ''elongated'' \<mapsto> 0, ''compact'' \<mapsto> 1, ''other'' \<mapsto> 0], [1])"

section \<open>Temporal windows: proofs\<close>

lemma comprehension_getitem_slice:
  assumes "0 \<le> s" "0 \<le> a" "s + a + int (length js) \<le> int (length xs)"
      and "js = [a..a + int n - 1]"
  shows "comprehension (\<lambda>i. py_getitem xs (s + i)) js
           = Inr (take n (drop (nat (s + a)) xs))"
  using assms
proof (induction n arbitrary: a js)
  case 0
  then show ?case by simp
next
  case (Suc n)
  have js: "js = a # [a + 1..a + 1 + int n - 1]"
    using Suc.prems(4) by (simp add: upto_rec1 [of a] algebra_simps)
  have len: "length [a + 1..a + 1 + int n - 1] = n" by simp
  have inb: "s + a < int (length xs)" using Suc.prems js by simp
  have hd: "py_getitem xs (s + a) = Inr (xs ! nat (s + a))"
    using Suc.prems(1,2) inb by (simp add: py_getitem_def Let_def)
  have tl: "comprehension (\<lambda>i. py_getitem xs (s + i)) [a + 1..a + 1 + int n - 1]
              = Inr (take n (drop (nat (s + (a + 1))) xs))"
    using Suc.prems(1,2,3) js by (intro Suc.IH) auto
  have nat_eq: "nat (s + (a + 1)) = Suc (nat (s + a))"
    using Suc.prems(1,2) by simp
  have lt: "nat (s + a) < length xs" using inb Suc.prems(1,2) by simp
  have "take (Suc n) (drop (nat (s + a)) xs)
          = xs ! nat (s + a) # take n (drop (Suc (nat (s + a))) xs)"
    using lt by (simp add: Cons_nth_drop_Suc [symmetric])
  then show ?case using hd tl nat_eq js by simp
qed

lemma window_loop_in_range:
  assumes "0 < W"
      and "\<forall>c\<in>set cs. h \<le> c \<and> c - h + W \<le> int (length fs)"
  shows "window_loop fs W h cs acc
           = Inr (acc @ map (\<lambda>c. (c, take (nat W) (drop (nat (c - h)) fs))) cs)"
  using assms(2)
proof (induction cs arbitrary: acc)
  case Nil
  then show ?case by simp
next
  case (Cons c cs)
  have c: "h \<le> c" "c - h + W \<le> int (length fs)" using Cons.prems by auto
  have "comprehension (\<lambda>i. py_getitem fs ((c - h) + i)) [0..0 + int (nat W) - 1]
          = Inr (take (nat W) (drop (nat ((c - h) + 0)) fs))"
    using c assms(1) by (intro comprehension_getitem_slice) auto
  then have win: "comprehension (\<lambda>i. py_getitem fs (c - h + i)) (py_range 0 W)
          = Inr (take (nat W) (drop (nat (c - h)) fs))"
    using assms(1) by (simp add: py_range_def)
  have rest: "\<forall>c\<in>set cs. h \<le> c \<and> c - h + W \<le> int (length fs)"
    using Cons.prems by simp
  show ?case using win Cons.IH [OF rest] by simp
qed

text \<open>
  Claim C3. For a frame sequence of length \<open>N\<close> and an odd (positive) window size
  \<open>W\<close>: when \<open>N \<ge> W\<close> the windower returns exactly \<open>N - W + 1\<close> pairs, whose centre
  indices are \<open>W div 2, ..., N - 1 - W div 2\<close> in this order and whose windows have
  length \<open>W\<close> (the window of centre \<open>c\<close> is the \<open>W\<close> frames from index
  \<open>c - W div 2\<close> on); when \<open>N < W\<close> it returns the empty list. In neither case is an
  exception raised. The window size left out is the window size 5.
\<close>

theorem create_frame_sequence_windows:
  assumes "odd W" and "0 < W"
  shows "(W \<le> int (length fs) \<longrightarrow>
            (\<exists>ws. create_frame_sequence fs (Some W) = Inr ws
               \<and> length ws = nat (int (length fs) - W + 1)
               \<and> map fst ws = [W div 2..int (length fs) - 1 - W div 2]
               \<and> (\<forall>(c, w) \<in> set ws. length w = nat W
                      \<and> w = take (nat W) (drop (nat (c - W div 2)) fs))))
       \<and> (int (length fs) < W \<longrightarrow> create_frame_sequence fs (Some W) = Inr [])
       \<and> create_frame_sequence fs None = create_frame_sequence fs (Some 5)"
proof (intro conjI impI)
  let ?N = "int (length fs)" and ?h = "W div 2"
  have W: "W = 2 * ?h + 1" using assms(1) by (simp add: odd_two_times_div_two_succ)
  have rng: "\<forall>c\<in>set (py_range ?h (?N - ?h)). ?h \<le> c \<and> c - ?h + W \<le> ?N"
    using W by (auto simp: py_range_def)
  have eq: "create_frame_sequence fs (Some W)
      = Inr (map (\<lambda>c. (c, take (nat W) (drop (nat (c - ?h)) fs))) (py_range ?h (?N - ?h)))"
    using window_loop_in_range [OF assms(2) rng, of "[]"]
    by (simp add: create_frame_sequence_def Let_def)
  {
    assume big: "W \<le> ?N"
    let ?ws = "map (\<lambda>c. (c, take (nat W) (drop (nat (c - ?h)) fs))) (py_range ?h (?N - ?h))"
    have len: "length ?ws = nat (?N - W + 1)"
      using W big by (simp add: py_range_def)
    have cs: "map fst ?ws = [?h..?N - 1 - ?h]"
      by (simp add: py_range_def comp_def algebra_simps)
    have each: "\<forall>(c, w) \<in> set ?ws. length w = nat W
                      \<and> w = take (nat W) (drop (nat (c - ?h)) fs)"
      using W assms(2) by (auto simp: py_range_def)
    show "\<exists>ws. create_frame_sequence fs (Some W) = Inr ws
               \<and> length ws = nat (?N - W + 1)
               \<and> map fst ws = [?h..?N - 1 - ?h]
               \<and> (\<forall>(c, w) \<in> set ws. length w = nat W
                      \<and> w = take (nat W) (drop (nat (c - ?h)) fs))"
      using eq len cs each by blast
  }
  {
    assume small: "?N < W"
    have "py_range ?h (?N - ?h) = []" using W small by (simp add: py_range_def)
    then show "create_frame_sequence fs (Some W) = Inr []" using eq by simp
  }
  show "create_frame_sequence fs None = create_frame_sequence fs (Some 5)"
    by (simp add: create_frame_sequence_def)
qed

text \<open>Seven frames and the window size 5 give the centres 2, 3, 4; three frames give
  no window.\<close>

theorem create_frame_sequence_windows_witness:
  "(\<exists>ws. create_frame_sequence [10, 11, 12, 13, 14, 15, 16 :: nat] (Some 5) = Inr ws
      \<and> length ws = 3 \<and> map fst ws = [2, 3, 4])
   \<and> create_frame_sequence [10, 11, 12 :: nat] (Some 5) = Inr []"
proof -
  have o: "odd (5::int)" and p: "0 < (5::int)" by simp_all
  have a: "\<exists>ws. create_frame_sequence [10, 11, 12, 13, 14, 15, 16 :: nat] (Some 5) = Inr ws
      \<and> length ws = 3 \<and> map fst ws = [2, 3, 4]"
    using create_frame_sequence_windows [OF o p, of "[10, 11, 12, 13, 14, 15, 16 :: nat]"]
    by (auto simp: upto_rec1)
  have b: "create_frame_sequence [10, 11, 12 :: nat] (Some 5) = Inr []"
    using create_frame_sequence_windows [OF o p, of "[10, 11, 12 :: nat]"] by simp
  show ?thesis using a b by blast
qed


section \<open>The job registry: proofs\<close>

lemma manager_inv_new: "manager_inv (new_manager ps)"
  by (simp add: manager_inv_def new_manager_def)

lemma new_dict_simps:
  "fst (new_dict d m) = next_addr m"
  "jobs (snd (new_dict d m)) = jobs m"
  "dicts (snd (new_dict d m)) = (dicts m)(next_addr m \<mapsto> d)"
  "payloads (snd (new_dict d m)) = payloads m"
  "next_addr (snd (new_dict d m)) = Suc (next_addr m)"
  by (simp_all add: new_dict_def)

lemma create_job_simps:
  "fst (create_job jid ft fn t1 t2 m) = Suc (next_addr m)"
  "jobs (snd (create_job jid ft fn t1 t2 m)) = (jobs m)(jid \<mapsto> next_addr m)"
  "payloads (snd (create_job jid ft fn t1 t2 m)) = payloads m"
  "next_addr (snd (create_job jid ft fn t1 t2 m)) = Suc (Suc (next_addr m))"
  "a < next_addr m \<Longrightarrow> dicts (snd (create_job jid ft fn t1 t2 m)) a = dicts m a"
  "dicts (snd (create_job jid ft fn t1 t2 m)) (next_addr m)
     = Some \<lparr>job_id = jid, status = QUEUED, progress = 0, stage = UPLOAD,
             message = ''Job queued'', file_type = ft, filename = fn,
             created_at = t1, updated_at = t2, error = None, results = None\<rparr>"
  by (simp_all add: create_job_def new_dict_def Let_def)

lemma update_job_simps:
  "jobs (update_job jid s p g t e r now m) = jobs m"
  "payloads (update_job jid s p g t e r now m) = payloads m"
  "next_addr (update_job jid s p g t e r now m) = next_addr m"
  by (simp_all add: update_job_def Let_def split: option.splits)

lemma update_job_dicts_other:
  "jobs m jid \<noteq> Some a \<Longrightarrow> dicts (update_job jid s p g t e r now m) a = dicts m a"
  by (simp add: update_job_def Let_def split: option.splits)

lemma update_job_dom:
  "dicts m a \<noteq> None \<Longrightarrow> dicts (update_job jid s p g t e r now m) a \<noteq> None"
  by (simp add: update_job_def Let_def split: option.splits)

lemma update_job_status:
  assumes "jobs m jid = Some a" "dicts m a = Some job"
  shows "map_option status (dicts (update_job jid s p g t e r now m) a)
           = Some (case s of None \<Rightarrow> status job | Some st \<Rightarrow> st)"
  using assms by (simp add: update_job_def Let_def split: option.splits)

lemma get_job_simps:
  "jobs (snd (get_job jid m)) = jobs m"
  "payloads (snd (get_job jid m)) = payloads m"
  "next_addr m \<le> next_addr (snd (get_job jid m))"
  "a < next_addr m \<Longrightarrow> dicts (snd (get_job jid m)) a = dicts m a"
  by (simp_all add: get_job_def new_dict_def Let_def split: option.splits)

lemma call_payloads: "payloads (call c m) = payloads m"
  by (cases c) (simp_all add: create_job_simps update_job_simps get_job_simps
      mark_failed_def mark_completed_def)

lemma calls_payloads: "payloads (calls cs m) = payloads m"
  by (induction cs arbitrary: m) (simp_all add: call_payloads)

lemma call_next_addr: "next_addr m \<le> next_addr (call c m)"
  by (cases c) (simp_all add: create_job_simps update_job_simps get_job_simps
      mark_failed_def mark_completed_def)

lemma manager_inv_create:
  assumes "manager_inv m"
  shows "manager_inv (snd (create_job jid ft fn t1 t2 m))"
proof -
  let ?m' = "snd (create_job jid ft fn t1 t2 m)"
  have old: "\<And>j a. jobs m j = Some a \<Longrightarrow> a < next_addr m \<and> dicts m a \<noteq> None"
    using assms by (simp add: manager_inv_def)
  have inj: "inj_on (jobs m) (dom (jobs m))" using assms by (simp add: manager_inv_def)
  have "inj_on (jobs ?m') (dom (jobs ?m'))"
  proof (rule inj_onI)
    fix x y assume x: "x \<in> dom (jobs ?m')" and y: "y \<in> dom (jobs ?m')"
      and eq: "jobs ?m' x = jobs ?m' y"
    show "x = y"
    proof (cases "x = jid")
      case True
      show ?thesis
      proof (rule ccontr)
        assume "x \<noteq> y"
        then have "jobs m y = Some (next_addr m)"
          using eq True by (simp add: create_job_simps)
        then show False using old by fastforce
      qed
    next
      case False
      show ?thesis
      proof (cases "y = jid")
        case True
        then have "jobs m x = Some (next_addr m)"
          using eq False by (simp add: create_job_simps)
        then show ?thesis using old by fastforce
      next
        case yF: False
        have "jobs m x = jobs m y" using eq False yF by (simp add: create_job_simps)
        moreover have "x \<in> dom (jobs m)" "y \<in> dom (jobs m)"
          using x y False yF by (auto simp: create_job_simps)
        ultimately show ?thesis using inj by (simp add: inj_on_def)
      qed
    qed
  qed
  moreover have "\<forall>j a. jobs ?m' j = Some a \<longrightarrow> a < next_addr ?m' \<and> dicts ?m' a \<noteq> None"
  proof (intro allI impI)
    fix j a assume ja: "jobs ?m' j = Some a"
    show "a < next_addr ?m' \<and> dicts ?m' a \<noteq> None"
    proof (cases "j = jid")
      case True
      then have "a = next_addr m" using ja by (simp add: create_job_simps)
      then show ?thesis by (simp add: create_job_simps)
    next
      case False
      then have "jobs m j = Some a" using ja by (simp add: create_job_simps)
      then have "a < next_addr m" "dicts m a \<noteq> None" using old by auto
      then show ?thesis by (simp add: create_job_simps)
    qed
  qed
  ultimately show ?thesis by (simp add: manager_inv_def)
qed

lemma manager_inv_update:
  assumes "manager_inv m"
  shows "manager_inv (update_job jid s p g t e r now m)"
  using assms update_job_dom [of m _ jid s p g t e r now]
  by (simp add: manager_inv_def update_job_simps)

lemma manager_inv_get:
  assumes "manager_inv m"
  shows "manager_inv (snd (get_job jid m))"
proof -
  have "\<And>j a. jobs m j = Some a \<Longrightarrow> a < next_addr (snd (get_job jid m))
            \<and> dicts (snd (get_job jid m)) a \<noteq> None"
    using assms get_job_simps(3) [where m = m and jid = jid]
    by (fastforce simp: manager_inv_def get_job_simps(4))
  then show ?thesis using assms by (simp add: manager_inv_def get_job_simps)
qed

lemma manager_inv_call: "manager_inv m \<Longrightarrow> manager_inv (call c m)"
  by (cases c) (simp_all add: manager_inv_create manager_inv_update manager_inv_get
      mark_failed_def mark_completed_def)

lemma manager_inv_calls: "manager_inv m \<Longrightarrow> manager_inv (calls cs m)"
  by (induction cs arbitrary: m) (simp_all add: manager_inv_call)

lemma detached_call:
  assumes "manager_inv m" and "x < next_addr m" and "\<forall>j. jobs m j \<noteq> Some x"
  shows "dicts (call c m) x = dicts m x \<and> x < next_addr (call c m)
           \<and> (\<forall>j. jobs (call c m) j \<noteq> Some x)"
proof (cases c)
  case (Create jid ft fn t1 t2)
  then show ?thesis using assms by (auto simp: create_job_simps)
next
  case (Update jid s p g t e r now)
  then show ?thesis using assms by (simp add: update_job_simps update_job_dicts_other)
next
  case (MarkFailed jid err now)
  then show ?thesis using assms
    by (simp add: mark_failed_def update_job_simps update_job_dicts_other)
next
  case (MarkCompleted jid res now)
  then show ?thesis using assms
    by (simp add: mark_completed_def update_job_simps update_job_dicts_other)
next
  case (Get jid)
  have "next_addr m \<le> next_addr (snd (get_job jid m))" by (rule get_job_simps(3))
  with assms(2) have "x < next_addr (snd (get_job jid m))" by (rule less_le_trans)
  then show ?thesis using Get assms by (simp add: get_job_simps(1,2,4))
qed

lemma detached_calls:
  assumes "manager_inv m" and "x < next_addr m" and "\<forall>j. jobs m j \<noteq> Some x"
  shows "dicts (calls cs m) x = dicts m x \<and> (\<forall>j. jobs (calls cs m) j \<noteq> Some x)"
  using assms
proof (induction cs arbitrary: m)
  case Nil
  then show ?case by simp
next
  case (Cons c cs)
  have step: "dicts (call c m) x = dicts m x" "x < next_addr (call c m)"
    "\<forall>j. jobs (call c m) j \<noteq> Some x"
    using detached_call [OF Cons.prems] by auto
  have "manager_inv (call c m)" using Cons.prems(1) by (rule manager_inv_call)
  from Cons.IH [OF this step(2,3)] step(1) show ?case by simp
qed

lemma get_job_present:
  assumes "manager_inv m" and "jobs m jid = Some a"
  obtains d where "dicts m a = Some d"
    and "get_job jid m = (Some (next_addr m), snd (new_dict d m))"
proof -
  from assms obtain d where d: "dicts m a = Some d"
    by (auto simp: manager_inv_def)
  then have "get_job jid m = (Some (next_addr m), snd (new_dict d m))"
    using assms(2) by (simp add: get_job_def new_dict_def)
  with d show ?thesis by (rule that)
qed

lemma call_status:
  assumes "manager_inv m" and "job_status m jid = Some s"
  shows "job_status (call c m) jid
           = Some (case written_status jid c of None \<Rightarrow> s | Some st \<Rightarrow> st)"
proof -
  from assms(2) obtain a job where a: "jobs m jid = Some a" and job: "dicts m a = Some job"
    and s: "status job = s"
    by (auto simp: job_status_def lookup_job_def split: option.splits)
  have lt: "a < next_addr m" using assms(1) a by (simp add: manager_inv_def)
  have other: "jobs m j \<noteq> Some a" if "j \<noteq> jid" for j
  proof
    assume "jobs m j = Some a"
    then have "jobs m j = jobs m jid" "j \<in> dom (jobs m)" "jid \<in> dom (jobs m)"
      using a by auto
    then have "j = jid" using assms(1) by (simp add: manager_inv_def inj_on_def)
    then show False using that by simp
  qed
  have upd: "job_status (update_job j st p g t e r now m) jid
               = Some (case (if j = jid then st else None) of None \<Rightarrow> s | Some x \<Rightarrow> x)"
    for j st p g t e r now
  proof (cases "j = jid")
    case True
    then show ?thesis
      using update_job_status [OF a job, of st p g t e r now] a s
      by (auto simp: job_status_def lookup_job_def update_job_simps)
  next
    case False
    then show ?thesis
      using update_job_dicts_other [OF other [OF False]] a job s
      by (simp add: job_status_def lookup_job_def update_job_simps)
  qed
  show ?thesis
  proof (cases c)
    case (Create j ft fn t1 t2)
    then show ?thesis using a job s lt
      by (simp add: job_status_def lookup_job_def create_job_simps)
  next
    case (Update j st p g t e r now)
    then show ?thesis using upd by simp
  next
    case (MarkFailed j err now)
    then show ?thesis using upd [of j "Some FAILED"] by (simp add: mark_failed_def)
  next
    case (MarkCompleted j res now)
    then show ?thesis using upd [of j "Some COMPLETED"] by (simp add: mark_completed_def)
  next
    case (Get j)
    then show ?thesis using a job s lt
      by (simp add: job_status_def lookup_job_def get_job_simps)
  qed
qed

lemma calls_status_not_queued:
  assumes "manager_inv m" and "job_status m jid = Some s" and "s \<noteq> QUEUED"
      and "\<forall>c\<in>set cs. written_status jid c \<noteq> Some QUEUED"
  shows "\<exists>s'. job_status (calls cs m) jid = Some s' \<and> s' \<noteq> QUEUED"
  using assms
proof (induction cs arbitrary: m s)
  case Nil
  then show ?case by simp
next
  case (Cons c cs)
  let ?s1 = "case written_status jid c of None \<Rightarrow> s | Some st \<Rightarrow> st"
  have st: "job_status (call c m) jid = Some ?s1"
    using call_status [OF Cons.prems(1,2)] .
  have nq: "?s1 \<noteq> QUEUED" using Cons.prems(3,4) by (auto split: option.splits)
  have "manager_inv (call c m)" using Cons.prems(1) by (rule manager_inv_call)
  from Cons.IH [OF this st nq] Cons.prems(4) show ?case by simp
qed

lemma calls_status_terminal:
  assumes "manager_inv m" and "job_status m jid = Some s" and "terminal s"
      and "\<forall>c\<in>set cs. written_status jid c \<noteq> Some QUEUED
                      \<and> written_status jid c \<noteq> Some RUNNING"
  shows "\<exists>s'. job_status (calls cs m) jid = Some s' \<and> terminal s'"
  using assms
proof (induction cs arbitrary: m s)
  case Nil
  then show ?case by simp
next
  case (Cons c cs)
  let ?s1 = "case written_status jid c of None \<Rightarrow> s | Some st \<Rightarrow> st"
  have st: "job_status (call c m) jid = Some ?s1"
    using call_status [OF Cons.prems(1,2)] .
  have "written_status jid c \<noteq> Some QUEUED" "written_status jid c \<noteq> Some RUNNING"
    using Cons.prems(4) by auto
  then have tm: "terminal ?s1" using Cons.prems(3)
    by (cases "written_status jid c"; cases "the (written_status jid c)")
       (auto simp: terminal_def)
  have "manager_inv (call c m)" using Cons.prems(1) by (rule manager_inv_call)
  from Cons.IH [OF this st tm] Cons.prems(4) show ?case by simp
qed

lemma completed_example_inv: "manager_inv completed_example"
  unfolding completed_example_def mark_completed_def
  by (intro manager_inv_update manager_inv_create manager_inv_new)

lemma completed_example_job:
  "lookup_job completed_example ''job-1''
     = Some \<lparr>job_id = ''job-1'', status = COMPLETED, progress = 100, stage = SAVING_RESULTS,
             message = ''Processing completed'', file_type = ''video'', filename = ''a.mp4'',
             created_at = ''t0'', updated_at = ''t1'', error = None, results = Some 7\<rparr>"
  by (simp add: completed_example_def mark_completed_def update_job_def create_job_def
      new_dict_def new_manager_def lookup_job_def Let_def)

text \<open>
  Claim C2, as the code has it. \<^verbatim>\<open>create_job\<close> has no check of the id and never
  fails: for every job id, already present or not, it stores under the id a new job in
  Queued state with progress 0 (in place of the job that was there, if any), leaves
  the other ids as they were, and returns a copy of the new job.
\<close>

theorem create_job_stores_queued:
  "\<exists>c m'. create_job jid ftype fname now1 now2 m = (c, m')
      \<and> lookup_job m' jid
          = Some \<lparr>job_id = jid, status = QUEUED, progress = 0, stage = UPLOAD,
                  message = ''Job queued'', file_type = ftype, filename = fname,
                  created_at = now1, updated_at = now2, error = None, results = None\<rparr>
      \<and> dicts m' c = lookup_job m' jid
      \<and> jobs m' jid \<noteq> Some c
      \<and> jobs m' = (jobs m)(jid \<mapsto> next_addr m)"
  by (simp add: create_job_def new_dict_def lookup_job_def Let_def)

text \<open>The job of the example is Completed; creating its id again does not fail and
  puts a Queued job with the new file in its place.\<close>

theorem create_job_stores_queued_witness:
  "\<exists>c m'. create_job ''job-1'' ''dataset'' ''b.zip'' ''t2'' ''t3'' completed_example = (c, m')
      \<and> job_status completed_example ''job-1'' = Some COMPLETED
      \<and> job_status m' ''job-1'' = Some QUEUED
      \<and> map_option progress (lookup_job m' ''job-1'') = Some 0"
  using create_job_stores_queued
          [of "''job-1''" "''dataset''" "''b.zip''" "''t2''" "''t3''" completed_example]
  by (auto simp: job_status_def completed_example_job)

text \<open>Claim C2 as stated fails: the id \<^verbatim>\<open>job-1\<close> is in the registry, and
  \<^verbatim>\<open>create_job\<close> with this id returns normally and replaces the job.\<close>

theorem create_job_existing_counterexample:
  "''job-1'' \<in> dom (jobs completed_example)
   \<and> lookup_job (snd (create_job ''job-1'' ''dataset'' ''b.zip'' ''t2'' ''t3'' completed_example))
        ''job-1''
      \<noteq> lookup_job completed_example ''job-1''
   \<and> map_option filename
        (lookup_job (snd (create_job ''job-1'' ''dataset'' ''b.zip'' ''t2'' ''t3''
           completed_example)) ''job-1'') = Some ''b.zip''"
  by (simp add: completed_example_def mark_completed_def update_job_def create_job_def
      new_dict_def new_manager_def lookup_job_def Let_def)

text \<open>
  Claim C8. For a job id of the registry, \<^verbatim>\<open>get_job\<close> returns a new dict with the
  content of the job's dict. No sequence of later calls (\<^verbatim>\<open>update_job\<close>,
  \<^verbatim>\<open>mark_failed\<close>, \<^verbatim>\<open>mark_completed\<close>, and also \<^verbatim>\<open>create_job\<close> and
  \<^verbatim>\<open>get_job\<close>, on this or any other id) changes a field of the returned dict, the
  registry never refers to it, and the result dict its \<^verbatim>\<open>results\<close> field refers to
  is not changed either.
\<close>

theorem get_job_snapshot_independent:
  assumes "manager_inv m" and "jid \<in> dom (jobs m)"
  shows "\<exists>snap m1 d. get_job jid m = (Some snap, m1) \<and> lookup_job m jid = Some d
           \<and> dicts m1 snap = Some d
           \<and> (\<forall>cs. dicts (calls cs m1) snap = Some d
                  \<and> snap \<notin> ran (jobs (calls cs m1))
                  \<and> (\<forall>r. results d = Some r \<longrightarrow> payloads (calls cs m1) r = payloads m r))"
proof -
  from assms(2) obtain a where a: "jobs m jid = Some a" by auto
  from get_job_present [OF assms(1) a] obtain d where d: "dicts m a = Some d"
    and g: "get_job jid m = (Some (next_addr m), snd (new_dict d m))" by blast
  let ?snap = "next_addr m" and ?m1 = "snd (new_dict d m)"
  have m1: "?m1 = snd (get_job jid m)" using g by simp
  have inv1: "manager_inv ?m1" unfolding m1 using assms(1) by (rule manager_inv_get)
  have lk: "lookup_job m jid = Some d" using a d by (simp add: lookup_job_def)
  have copy: "dicts ?m1 ?snap = Some d" by (simp add: new_dict_simps)
  have fresh: "?snap < next_addr ?m1" by (simp add: new_dict_simps)
  have unref: "\<forall>j. jobs ?m1 j \<noteq> Some ?snap"
    using assms(1) by (fastforce simp: new_dict_simps manager_inv_def)
  have "dicts (calls cs ?m1) ?snap = Some d \<and> ?snap \<notin> ran (jobs (calls cs ?m1))
          \<and> (\<forall>r. results d = Some r \<longrightarrow> payloads (calls cs ?m1) r = payloads m r)" for cs
    using detached_calls [OF inv1 fresh unref, of cs] copy
    by (auto simp: ran_def calls_payloads new_dict_simps)
  then show ?thesis using g lk copy by blast
qed

text \<open>A snapshot of the completed job of the example keeps its status, its progress
  and its result reference when the job is afterwards set back to Running with progress
  10 and then marked failed; the registry's own dict shows the new status.\<close>

theorem get_job_snapshot_independent_witness:
  "\<exists>snap m1. get_job ''job-1'' completed_example = (Some snap, m1)
      \<and> map_option status
          (dicts (calls [Update ''job-1'' (Some RUNNING) (Some 10) None None None None ''t2'',
                         MarkFailed ''job-1'' ''no frames'' ''t3''] m1) snap) = Some COMPLETED
      \<and> map_option results
          (dicts (calls [Update ''job-1'' (Some RUNNING) (Some 10) None None None None ''t2'',
                         MarkFailed ''job-1'' ''no frames'' ''t3''] m1) snap) = Some (Some 7)
      \<and> payloads (calls [Update ''job-1'' (Some RUNNING) (Some 10) None None None None ''t2'',
                         MarkFailed ''job-1'' ''no frames'' ''t3''] m1) 7 = Some 42"
proof -
  have dom: "''job-1'' \<in> dom (jobs completed_example)"
    using completed_example_job by (auto simp: lookup_job_def split: option.splits)
  have p: "payloads completed_example 7 = Some 42"
    by (simp add: completed_example_def mark_completed_def update_job_simps
        create_job_simps new_manager_def)
  from get_job_snapshot_independent [OF completed_example_inv dom]
  show ?thesis using completed_example_job p by fastforce
qed

text \<open>
  Claim C9, as the code has it. The registry does not check transitions: after a call,
  the status of a job is the status the call writes for its id (Queued for
  \<^verbatim>\<open>create_job\<close>, the \<^verbatim>\<open>status\<close> argument for \<^verbatim>\<open>update_job\<close>, Failed for
  \<^verbatim>\<open>mark_failed\<close>, Completed for \<^verbatim>\<open>mark_completed\<close>), and the status it had when
  the call writes none. So over a sequence of calls none of which writes Queued for the
  id, a job that has left Queued does not return to Queued; and over a sequence none of
  which writes Queued or Running for the id, a Completed or Failed job stays Completed
  or Failed.
\<close>

theorem status_changes_as_written:
  assumes "manager_inv m" and "job_status m jid = Some s"
  shows "job_status (call c m) jid
           = Some (case written_status jid c of None \<Rightarrow> s | Some st \<Rightarrow> st)
       \<and> ((\<forall>c\<in>set cs. written_status jid c \<noteq> Some QUEUED) \<longrightarrow> s \<noteq> QUEUED \<longrightarrow>
            (\<exists>s'. job_status (calls cs m) jid = Some s' \<and> s' \<noteq> QUEUED))
       \<and> ((\<forall>c\<in>set cs. written_status jid c \<noteq> Some QUEUED
                        \<and> written_status jid c \<noteq> Some RUNNING) \<longrightarrow> terminal s \<longrightarrow>
            (\<exists>s'. job_status (calls cs m) jid = Some s' \<and> terminal s'))"
proof (intro conjI impI)
  show "job_status (call c m) jid
          = Some (case written_status jid c of None \<Rightarrow> s | Some st \<Rightarrow> st)"
    using assms by (rule call_status)
next
  assume "\<forall>c\<in>set cs. written_status jid c \<noteq> Some QUEUED" and "s \<noteq> QUEUED"
  with assms show "\<exists>s'. job_status (calls cs m) jid = Some s' \<and> s' \<noteq> QUEUED"
    by (intro calls_status_not_queued)
next
  assume "\<forall>c\<in>set cs. written_status jid c \<noteq> Some QUEUED
            \<and> written_status jid c \<noteq> Some RUNNING" and "terminal s"
  with assms show "\<exists>s'. job_status (calls cs m) jid = Some s' \<and> terminal s'"
    by (intro calls_status_terminal)
qed

text \<open>The completed job of the example, after a progress update without a status, a
  \<^verbatim>\<open>mark_failed\<close>, a read and the creation of another id, is Completed or Failed.\<close>

theorem status_changes_as_written_witness:
  "job_status completed_example ''job-1'' = Some COMPLETED
   \<and> (\<exists>s'. job_status
              (calls [Update ''job-1'' None (Some 50) None None None None ''t2'',
                      MarkFailed ''job-1'' ''no frames'' ''t3'', Get ''job-1'',
                      Create ''job-2'' ''video'' ''c.mp4'' ''t4'' ''t4''] completed_example)
              ''job-1'' = Some s' \<and> terminal s')"
proof -
  have st: "job_status completed_example ''job-1'' = Some COMPLETED"
    by (simp add: job_status_def completed_example_job)
  from status_changes_as_written [OF completed_example_inv st,
      of _ "[Update ''job-1'' None (Some 50) None None None None ''t2'',
             MarkFailed ''job-1'' ''no frames'' ''t3'', Get ''job-1'',
             Create ''job-2'' ''video'' ''c.mp4'' ''t4'' ''t4'']"]
  show ?thesis using st by (simp add: terminal_def)
qed

text \<open>Claim C9 as stated fails: \<^verbatim>\<open>update_job\<close> with \<^verbatim>\<open>status=RUNNING\<close> takes the
  completed job of the example back to Running, and \<^verbatim>\<open>create_job\<close> with its id takes
  it back to Queued.\<close>

theorem status_backward_counterexample:
  "job_status completed_example ''job-1'' = Some COMPLETED
   \<and> job_status (calls [Update ''job-1'' (Some RUNNING) None None None None None ''t2'']
        completed_example) ''job-1'' = Some RUNNING
   \<and> job_status (calls [Create ''job-1'' ''video'' ''a.mp4'' ''t2'' ''t2'']
        completed_example) ''job-1'' = Some QUEUED"
  by (simp add: completed_example_def mark_completed_def update_job_def create_job_def
      new_dict_def new_manager_def lookup_job_def job_status_def Let_def)


section \<open>Real arithmetic: proofs\<close>

lemma real_ops_simps [simp]:
  "f_int real_ops n = Fin (real_of_int n)"
  "f_add real_ops = fadd"
  "f_mul real_ops = fmul"
  "f_div real_ops = fdiv"
  "np_log real_ops = flog"
  "np_mean real_ops = fmean"
  "np_std real_ops = fstd"
  by (simp_all add: real_ops_def)

lemma foldl_fadd_Fin: "foldl fadd (Fin a) (map Fin xs) = Fin (a + sum_list xs)"
  by (induction xs arbitrary: a) (simp_all add: add.assoc)

lemma fmean_Fin:
  "xs \<noteq> [] \<Longrightarrow> fmean (map Fin xs) = Fin (sum_list xs / real (length xs))"
  by (simp add: fmean_def fsum_def foldl_fadd_Fin)

lemma fstd_Fin:
  assumes "xs \<noteq> []"
  shows "fstd (map Fin xs)
           = Fin (sqrt (sum_list (map (\<lambda>x. (x - sum_list xs / real (length xs))\<^sup>2) xs)
                          / real (length xs)))"
proof -
  let ?m = "sum_list xs / real (length xs)"
  have dev: "map (\<lambda>x. fmul (fsub x (Fin ?m)) (fsub x (Fin ?m))) (map Fin xs)
               = map Fin (map (\<lambda>x. (x - ?m)\<^sup>2) xs)"
    by (simp add: fsub_def power2_eq_square)
  have nonneg: "0 \<le> sum_list (map (\<lambda>x. (x - ?m)\<^sup>2) xs) / real (length xs)"
    by (intro divide_nonneg_nonneg sum_list_nonneg) auto
  have mean: "fmean (map Fin xs) = Fin ?m" using assms by (rule fmean_Fin)
  have "fstd (map Fin xs)
          = fsqrt (fmean (map Fin (map (\<lambda>x. (x - ?m)\<^sup>2) xs)))"
    unfolding fstd_def Let_def mean dev ..
  also have "\<dots> = fsqrt (Fin (sum_list (map (\<lambda>x. (x - ?m)\<^sup>2) xs) / real (length xs)))"
  proof -
    have "map (\<lambda>x. (x - ?m)\<^sup>2) xs \<noteq> []" using assms by simp
    from fmean_Fin [OF this] show ?thesis by (simp only: length_map)
  qed
  also have "\<dots> = Fin (sqrt (sum_list (map (\<lambda>x. (x - ?m)\<^sup>2) xs) / real (length xs)))"
    using nonneg by simp
  finally show ?thesis .
qed

text \<open>A series of equal rates with one higher rate at the end.\<close>

lemma spike_mean:
  "fmean (replicate m (Fin a) @ [Fin (a + L)]) = Fin (a + L / (real m + 1))"
proof -
  have r: "replicate m (Fin a) @ [Fin (a + L)] = map Fin (replicate m a @ [a + L])"
    by simp
  have s: "sum_list (replicate m a @ [a + L]) / real (length (replicate m a @ [a + L]))
             = a + L / (real m + 1)"
    by (simp add: sum_list_replicate field_simps)
  show ?thesis unfolding r using fmean_Fin [of "replicate m a @ [a + L]"] s by simp
qed

lemma spike_std:
  assumes "0 \<le> L"
  shows "fstd (replicate m (Fin a) @ [Fin (a + L)]) = Fin (L * sqrt (real m) / (real m + 1))"
proof -
  let ?xs = "replicate m a @ [a + L]"
  have r: "replicate m (Fin a) @ [Fin (a + L)] = map Fin ?xs"
    by simp
  have mu: "sum_list ?xs / real (length ?xs) = a + L / (real m + 1)"
    by (simp add: sum_list_replicate field_simps)
  have sq: "sum_list (map (\<lambda>x. (x - (a + L / (real m + 1)))\<^sup>2) ?xs) / real (length ?xs)
              = (L * sqrt (real m) / (real m + 1))\<^sup>2"
  proof -
    have "sum_list (map (\<lambda>x. (x - (a + L / (real m + 1)))\<^sup>2) ?xs)
            = real m * (L / (real m + 1))\<^sup>2 + (L - L / (real m + 1))\<^sup>2"
      by (simp add: sum_list_replicate power2_eq_square)
    also have "\<dots> = L\<^sup>2 * real m / (real m + 1)"
    proof -
      have g: "(n - 1) * (L / n)\<^sup>2 + (L - L / n)\<^sup>2 = L\<^sup>2 * (n - 1) / n"
        if "n \<noteq> 0" for n :: real
        using that by (simp add: power2_eq_square field_simps)
      show ?thesis using g [of "real m + 1"] by simp
    qed
    finally have "sum_list (map (\<lambda>x. (x - (a + L / (real m + 1)))\<^sup>2) ?xs) / real (length ?xs)
            = L\<^sup>2 * real m / (real m + 1) / (real m + 1)"
      by simp
    also have "\<dots> = (L * sqrt (real m) / (real m + 1))\<^sup>2"
      by (simp add: power2_eq_square field_simps)
    finally show ?thesis .
  qed
  have nn: "0 \<le> L * sqrt (real m) / (real m + 1)" using assms by simp
  have "fstd (map Fin ?xs) = Fin (sqrt ((L * sqrt (real m) / (real m + 1))\<^sup>2))"
    using fstd_Fin [of ?xs] unfolding mu sq by simp
  also have "\<dots> = Fin (L * sqrt (real m) / (real m + 1))"
    using nn by (simp only: real_sqrt_abs abs_of_nonneg)
  finally show ?thesis unfolding r .
qed


text \<open>The growth rates from 1 to 1 and from 1 to 2 pixels, and the event condition on a
  series of equal rates with one higher rate, in real arithmetic.\<close>

lemma unit_rates:
  "\<exists>a. flog (fdiv (Fin 1) (fadd (Fin 1) lit_1e_6)) = Fin a
      \<and> flog (fdiv (Fin 2) (fadd (Fin 1) lit_1e_6)) = Fin (a + ln 2)"
proof -
  define e :: real where "e = 4722366482869645 / 2 ^ 72"
  have e: "lit_1e_6 = Fin e" "0 < e"
    unfolding e_def lit_1e_6_def by simp_all
  define x where "x = 1 / (1 + e)"
  have xpos: "0 < x" using e(2) by (simp add: x_def)
  have ne: "1 + e \<noteq> 0" using e(2) by simp
  have d1: "fdiv (Fin 1) (fadd (Fin 1) lit_1e_6) = Fin x"
    unfolding e(1) using ne by (simp add: x_def)
  have d2: "fdiv (Fin 2) (fadd (Fin 1) lit_1e_6) = Fin (2 * x)"
    unfolding e(1) using ne by (simp add: x_def)
  have l1: "flog (Fin x) = Fin (ln x)" using xpos by simp
  have "ln (2 * x) = ln 2 + ln x" using xpos by (simp add: ln_mult)
  then have l2: "flog (Fin (2 * x)) = Fin (ln x + ln 2)" using xpos by simp
  show ?thesis unfolding d1 d2 l1 l2 by blast
qed

lemma spike_event_iff:
  assumes L: "0 < L" and k: "0 \<le> k" and m: "0 < m" and i: "i \<le> m"
  shows "spec_event real_ops (replicate m (Fin a) @ [Fin (a + L)]) c (Fin k) t i
           = ((i = m \<and> k < sqrt (real m)) \<or> (Suc i < length c \<and> c ! Suc i - c ! i \<ge> t))"
proof -
  let ?G = "replicate m (Fin a) @ [Fin (a + L)]"
  let ?s = "sqrt (real m)"
  let ?n = "real m + 1"
  have s: "0 < ?s" using m by simp
  have n: "0 < ?n" by simp
  have ss: "?s * ?s = real m" by simp
  have sd: "0 < L * ?s / ?n" using L s n by simp
  have mean: "fmean ?G = Fin (a + L / ?n)" by (rule spike_mean)
  have std: "fstd ?G = Fin (L * ?s / ?n)" using L by (simp add: spike_std)
  have thr: "fadd (fmean ?G) (fmul (Fin k) (fstd ?G)) = Fin (a + L / ?n + k * (L * ?s / ?n))"
    unfolding mean std by simp
  have pos: "fgt (fstd ?G) (Fin 0)" unfolding std using sd by simp
  have low: "\<not> a > a + L / ?n + k * (L * ?s / ?n)"
  proof -
    have "0 \<le> k * (L * ?s / ?n)" using k sd by (intro mult_nonneg_nonneg) simp_all
    moreover have "0 < L / ?n" using L n by simp
    ultimately show ?thesis by linarith
  qed
  have high: "(a + L > a + L / ?n + k * (L * ?s / ?n)) = (k < ?s)"
  proof -
    have t: "L / ?n + k * (L * ?s / ?n) = L * (1 + k * ?s) / ?n"
      by (simp add: algebra_simps add_divide_distrib)
    have "(a + L > a + L / ?n + k * (L * ?s / ?n)) = (L / ?n + k * (L * ?s / ?n) < L)"
      by auto
    also have "\<dots> = (L * (1 + k * ?s) / ?n < L)"
      unfolding t ..
    also have "\<dots> = (L * (1 + k * ?s) < L * ?n)"
      using n by (simp add: pos_divide_less_eq)
    also have "\<dots> = (1 + k * ?s < ?n)"
      using L by (simp only: mult_less_cancel_left_pos)
    also have "\<dots> = (k * ?s < ?s * ?s)"
      unfolding ss by auto
    also have "\<dots> = (k < ?s)"
      using s by (simp only: mult_less_cancel_right_pos)
    finally show ?thesis .
  qed
  have nth: "?G ! i = (if i = m then Fin (a + L) else Fin a)"
    using i by (simp add: nth_append)
  show ?thesis
    unfolding spec_event_def real_ops_simps thr nth using pos low high by simp
qed

lemma sqrt_bounds:
  "(2 :: real) < sqrt 6" "(1 :: real) < sqrt 2" "\<not> (2 :: real) < sqrt 2"
proof -
  show "(2 :: real) < sqrt 6" by (rule real_less_rsqrt) simp
  show "(1 :: real) < sqrt 2" by simp
  have "sqrt (2 :: real) < 2" by (rule real_less_lsqrt) simp_all
  then show "\<not> (2 :: real) < sqrt 2" by simp
qed

lemma fstd_constant:
  assumes "0 < n"
  shows "fstd (replicate n (Fin a)) = Fin 0"
proof -
  have r: "replicate n (Fin a) = map Fin (replicate n a)" by simp
  have ne: "replicate n a \<noteq> []" using assms by simp
  have m: "sum_list (replicate n a) / real (length (replicate n a)) = a"
    using assms by (simp add: sum_list_replicate)
  have z: "sum_list (map (\<lambda>x. (x - a)\<^sup>2) (replicate n a)) = 0"
    by (simp add: sum_list_replicate)
  show ?thesis unfolding r fstd_Fin [OF ne] m z by simp
qed

section \<open>Phenotype classification: proofs\<close>

text \<open>
  Claim C5, as the code has it. For every float arithmetic, the phenotype of a region is
  given by the ordered rule chain of the specification (first match wins) applied to
  the aspect ratio that the code computes, the area and the solidity (1 when the region
  has no solidity). That aspect ratio is the float quotient of the major by the minor
  axis length when the minor axis length is positive, and otherwise the float quotient
  of \<open>max h w\<close> by the float sum \<open>min h w + 1e-6\<close>, for the height \<open>h\<close> and the width
  \<open>w\<close> of the bounding box: the guard against a division by zero makes the fallback
  smaller than the ratio of the long to the short side. The phenotype is one of the
  four names.
\<close>

theorem classify_phenotype_rule_chain:
  "classify_phenotype fl region
     = spec_rule_chain (code_aspect_ratio fl region) (area region)
         (case solidity region of Some s \<Rightarrow> s | None \<Rightarrow> 1)
   \<and> classify_phenotype fl region \<in> {''rod_like'', ''elongated'', ''compact'', ''other''}"
proof -
  have chain: "(if fge R (Fin 3) then ''elongated''
                else if fge R (Fin 2) \<and> flt R (Fin 3)
                  then (if n > 200 then ''rod_like'' else ''other'')
                else if flt R (Fin (18 / 10)) \<and> s \<ge> 8 / 10 then ''compact'' else ''other'')
               = spec_rule_chain R n s" for R :: np_float and n :: nat and s :: real
    by (simp add: spec_rule_chain_def)
  have names: "spec_rule_chain R n s \<in> {''rod_like'', ''elongated'', ''compact'', ''other''}"
    for R :: np_float and n :: nat and s :: real
    by (simp add: spec_rule_chain_def)
  have eq: "classify_phenotype fl region
     = spec_rule_chain (code_aspect_ratio fl region) (area region)
         (case solidity region of Some s \<Rightarrow> s | None \<Rightarrow> 1)"
    unfolding classify_phenotype_def code_aspect_ratio_def Let_def by (rule chain)
  show ?thesis unfolding eq using names by (intro conjI refl)
qed

text \<open>In real arithmetic, a region with axis lengths 30 and 12 (ratio 2.5) and 250
  pixels is rod-like, and the three-pixel line, which falls back to the bounding box,
  has the aspect ratio \<open>3 / (1 + 1e-6)\<close>, about 2.999997, and is classified as other.\<close>

theorem classify_phenotype_rule_chain_witness:
  "classify_phenotype real_ops
     \<lparr>label = 1, area = 250, bbox = (0, 0, 12, 30), major_axis_length = 30,
      minor_axis_length = 12, solidity = Some (9 / 10), centroid = (6, 15)\<rparr> = ''rod_like''
   \<and> classify_phenotype real_ops line3_region = ''other''"
  using classify_phenotype_rule_chain
          [of real_ops
              "\<lparr>label = 1, area = 250, bbox = (0, 0, 12, 30), major_axis_length = 30,
                minor_axis_length = 12, solidity = Some (9 / 10), centroid = (6, 15)\<rparr>"]
        classify_phenotype_rule_chain [of real_ops line3_region]
  by (simp add: spec_rule_chain_def code_aspect_ratio_def line3_region_def lit_1e_6_def
      flt_def)

text \<open>Claim C5 as stated fails on the three-pixel line: its minor axis length is 0 and
  the sides of its bounding box are 3 and 1, so the stated aspect ratio is 3 and the
  stated rule chain gives elongated, while the code divides 3 by \<open>1 + 1e-6\<close>, which
  gives about 2.999997, and returns other. (The example is evaluated in real arithmetic;
  in double arithmetic the two quotients are \<open>3.0\<close> and \<open>2.9999970000030003\<close>.)\<close>

theorem classify_phenotype_line_counterexample:
  "spec_aspect_ratio real_ops line3_region = Fin 3
   \<and> spec_rule_chain (spec_aspect_ratio real_ops line3_region) (area line3_region) 1
       = ''elongated''
   \<and> classify_phenotype real_ops line3_region = ''other''"
  by (simp add: spec_aspect_ratio_def spec_rule_chain_def classify_phenotype_def
      line3_region_def Let_def lit_1e_6_def flt_def)

section \<open>Division events: proofs\<close>

lemma growth_rates_loop_map:
  "growth_rates_loop fl b idxs acc
     = acc @ map (\<lambda>i. if b ! (i - 1) > 0
                        then np_log fl (f_div fl (f_int fl (b ! i))
                                          (f_add fl (f_int fl (b ! (i - 1))) lit_1e_6))
                        else Fin 0) idxs"
  by (induction idxs arbitrary: acc) simp_all

lemma events_loop_filter:
  "events_loop fl g m s c k t idxs acc
     = acc @ map Suc
         (filter (\<lambda>i. (fgt s (Fin 0) \<and> fgt (g ! i) (f_add fl m (f_mul fl k s)))
                       \<or> (Suc i < length c \<and> c ! Suc i - c ! i \<ge> t)) idxs)"
  by (induction idxs arbitrary: acc) (simp_all add: Let_def)

lemma growth_rates_loop_spec:
  assumes "\<forall>x\<in>set b. 0 \<le> x"
  shows "growth_rates_loop fl b [1..<length b] [] = spec_growth_rates fl b"
proof -
  have "(b ! (i - 1) > 0) = (b ! (i - 1) \<noteq> 0)" if "i \<in> set [1..<length b]" for i
  proof -
    have "i - 1 < length b" using that by auto
    then have "0 \<le> b ! (i - 1)" using assms by simp
    then show ?thesis by auto
  qed
  then show ?thesis
    unfolding growth_rates_loop_map spec_growth_rates_def by (auto intro!: map_cong)
qed

lemma length_spec_growth_rates: "length (spec_growth_rates fl b) = length b - 1"
  by (simp add: spec_growth_rates_def)

lemma detect_division_events_filter:
  assumes "\<forall>x\<in>set b. 0 \<le> x" and "3 \<le> length b"
  shows "detect_division_events fl b c (Some k) (Some t)
           = map Suc (filter (spec_event fl (spec_growth_rates fl b) c k t)
                        [1..<length (spec_growth_rates fl b)])"
proof -
  have ne: "length (spec_growth_rates fl b) \<noteq> 0"
    using assms(2) by (simp add: length_spec_growth_rates)
  have ev: "spec_event fl g c k t
      = (\<lambda>i. (fgt (np_std fl g) (Fin 0)
                \<and> fgt (g ! i) (f_add fl (np_mean fl g) (f_mul fl k (np_std fl g))))
              \<or> (Suc i < length c \<and> c ! Suc i - c ! i \<ge> t))" for g
    by (rule ext) (simp add: spec_event_def)
  show ?thesis
    unfolding detect_division_events_def Let_def growth_rates_loop_spec [OF assms(1)] ev
    using assms(2) ne by (simp add: events_loop_filter)
qed



lemma detect_division_events_default:
  "detect_division_events fl b c None None
     = detect_division_events fl b c (Some (Fin 1)) (Some 1)"
  by (simp add: detect_division_events_def)

lemma spike2_events:
  assumes "0 \<le> k"
  shows "detect_division_events real_ops [1, 1, 1, 2] [1, 1, 1, 1] (Some (Fin k)) (Some 1)
           = (if k < sqrt 2 then [3] else [])"
proof -
  have nn: "\<forall>x\<in>set [1, 1, 1, 2 :: int]. 0 \<le> x" by simp
  have n3: "3 \<le> length [1, 1, 1, 2 :: int]" by simp
  obtain a where a: "flog (fdiv (Fin 1) (fadd (Fin 1) lit_1e_6)) = Fin a"
      "flog (fdiv (Fin 2) (fadd (Fin 1) lit_1e_6)) = Fin (a + ln 2)"
    using unit_rates by blast
  define G where "G = replicate 2 (Fin a) @ [Fin (a + ln 2)]"
  define C where "C = replicate 4 (1 :: int)"
  have G: "spec_growth_rates real_ops [1, 1, 1, 2] = G"
    by (simp add: spec_growth_rates_def upt_rec a G_def numeral_eq_Suc)
  have C: "[1, 1, 1, 1] = C"
    by (simp add: C_def numeral_eq_Suc)
  have idx: "[1..<length G] = [1, 2]"
    by (simp add: G_def upt_rec)
  have P: "spec_event real_ops G C (Fin k) 1 i = (i = 2 \<and> k < sqrt 2)" if "i \<le> 2" for i
    unfolding G_def C_def
    using spike_event_iff [of "ln 2" k 2 i a "replicate 4 1" 1] that assms
    by simp
  show ?thesis
    unfolding detect_division_events_filter [OF nn n3] G C idx by (simp add: P)
qed


section \<open>The metrics of a run: proofs\<close>

lemma comprehension_Inr: "comprehension (\<lambda>i. Inr (g i)) xs = Inr (map g xs)"
  by (induction xs) simp_all

lemma comprehension_lookup_replicate:
  "pc k = Some v \<Longrightarrow> comprehension (\<lambda>pc. py_lookup pc k) (replicate M pc) = Inr (replicate M v)"
  by (induction M) (simp_all add: py_lookup_def)

lemma create_frame_sequence_replicate:
  assumes "5 \<le> N"
  shows "create_frame_sequence (replicate N f) (Some 5)
           = Inr (map (\<lambda>c. (c, replicate 5 f)) [2..int N - 3])"
proof -
  have in_range: "\<forall>c\<in>set [2..int N - 3]. 2 \<le> c \<and> c - 2 + 5 \<le> int (length (replicate N f))"
    by auto
  have win: "take (nat 5) (drop (nat (c - 2)) (replicate N f)) = replicate 5 f"
    if "c \<in> set [2..int N - 3]" for c
  proof -
    have "5 \<le> N - nat (c - 2)" using that by auto
    then show ?thesis by (simp add: min_absorb1)
  qed
  have "window_loop (replicate N f) 5 2 [2..int N - 3] []
          = Inr ([] @ map (\<lambda>c. (c, take (nat 5) (drop (nat (c - 2)) (replicate N f))))
                        [2..int N - 3])"
    using in_range by (intro window_loop_in_range) simp_all
  also have "\<dots> = Inr (map (\<lambda>c. (c, replicate 5 f)) [2..int N - 3])"
    using win by (simp cong: map_cong)
  finally show ?thesis
    by (simp add: create_frame_sequence_def py_range_def Let_def algebra_simps)
qed

lemma length_centres: "5 \<le> N \<Longrightarrow> length [2..int N - 3] = N - 4"
  by simp

lemma growth_rates_constant:
  assumes "0 < bm"
  shows "growth_rates_loop fl (replicate M bm) [1..<M] []
           = replicate (M - 1)
               (np_log fl (f_div fl (f_int fl bm) (f_add fl (f_int fl bm) lit_1e_6)))"
proof -
  have "map (\<lambda>i. if replicate M bm ! (i - 1) > 0
                 then np_log fl (f_div fl (f_int fl (replicate M bm ! i))
                                   (f_add fl (f_int fl (replicate M bm ! (i - 1))) lit_1e_6))
                 else Fin 0) [1..<M]
          = map (\<lambda>i. np_log fl (f_div fl (f_int fl bm) (f_add fl (f_int fl bm) lit_1e_6)))
              [1..<M]"
    using assms by (intro map_cong) auto
  then show ?thesis
    unfolding growth_rates_loop_map by (simp add: map_replicate_const)
qed

lemma events_constant:
  assumes "0 < bm" and "0 < t"
  shows "detect_division_events fl (replicate M bm) (replicate M nc) (Some k) (Some t)
           = (if fgt (np_std fl
                        (replicate (M - 1)
                           (np_log fl (f_div fl (f_int fl bm)
                                         (f_add fl (f_int fl bm) lit_1e_6)))))
                     (Fin 0)
                 \<and> fgt (np_log fl (f_div fl (f_int fl bm) (f_add fl (f_int fl bm) lit_1e_6)))
                     (f_add fl
                        (np_mean fl
                           (replicate (M - 1)
                              (np_log fl (f_div fl (f_int fl bm)
                                            (f_add fl (f_int fl bm) lit_1e_6)))))
                        (f_mul fl k
                           (np_std fl
                              (replicate (M - 1)
                                 (np_log fl (f_div fl (f_int fl bm)
                                               (f_add fl (f_int fl bm) lit_1e_6)))))))
              then map Suc [1..<M - 1] else [])"
proof -
  define r where "r = np_log fl (f_div fl (f_int fl bm) (f_add fl (f_int fl bm) lit_1e_6))"
  define g where "g = replicate (M - 1) r"
  have gr: "growth_rates_loop fl (replicate M bm) [1..<length (replicate M bm)] [] = g"
    using growth_rates_constant [OF assms(1), of fl M] by (simp add: g_def r_def)
  have len: "length g = M - 1" by (simp add: g_def)
  have flt: "filter (\<lambda>i. (fgt (np_std fl g) (Fin 0)
                          \<and> fgt (g ! i) (f_add fl (np_mean fl g) (f_mul fl k (np_std fl g))))
                        \<or> (Suc i < length (replicate M nc)
                            \<and> replicate M nc ! Suc i - replicate M nc ! i \<ge> t))
               [1..<length g]
             = filter (\<lambda>i. fgt (np_std fl g) (Fin 0)
                          \<and> fgt r (f_add fl (np_mean fl g) (f_mul fl k (np_std fl g))))
                 [1..<length g]"
    using assms(2) by (intro filter_cong) (auto simp: g_def)
  have "detect_division_events fl (replicate M bm) (replicate M nc) (Some k) (Some t)
          = (if fgt (np_std fl g) (Fin 0)
                  \<and> fgt r (f_add fl (np_mean fl g) (f_mul fl k (np_std fl g)))
             then map Suc [1..<M - 1] else [])"
  proof (cases "M < 3")
    case True
    then have "[1..<M - 1] = []" by simp
    then show ?thesis using True by (simp add: detect_division_events_def)
  next
    case False
    then have ne: "length g \<noteq> 0" using len by simp
    have "detect_division_events fl (replicate M bm) (replicate M nc) (Some k) (Some t)
            = map Suc (filter (\<lambda>i. fgt (np_std fl g) (Fin 0)
                          \<and> fgt r (f_add fl (np_mean fl g) (f_mul fl k (np_std fl g))))
                 [1..<length g])"
      unfolding detect_division_events_def Let_def gr events_loop_filter
      using False ne flt by simp
    then show ?thesis unfolding len by simp
  qed
  then show ?thesis unfolding g_def r_def .
qed

lemma pipeline_constant:
  fixes analyse :: "'f list \<Rightarrow> int \<times> (string \<rightharpoonup> int) \<times> 'c list"
  assumes N: "5 \<le> N"
      and an: "analyse (replicate 5 f) = (bm, pc, comps)"
      and bm: "0 < bm"
      and keys: "{''rod_like'', ''elongated'', ''compact'', ''other''} \<subseteq> dom pc"
      and fps: "fps \<noteq> Fin 0"
  shows "\<exists>res. run_inference_pipeline fl analyse mask_area (replicate N f) gt_masks fps
                 = Inr res
      \<and> n_frames res = N - 4 \<and> csv_rows res = N - 4
      \<and> map_of (metrics_data res) ''area_pred'' = Some (Ints (replicate (N - 4) bm))
      \<and> map_of (metrics_data res) ''growth_pred''
          = Some (Floats (Fin 0 # replicate (N - 5) (constant_rate fl bm)))
      \<and> division_events res
          = (if constant_spike fl bm (N - 5) (Fin 2) then map Suc [1..<N - 5] else [])"
proof -
  define M where "M = N - 4"
  define S where "S = map (\<lambda>c. (c, replicate 5 f)) [2..int N - 3]"
  obtain v1 v2 v3 v4 where v: "pc ''rod_like'' = Some v1" "pc ''elongated'' = Some v2"
      "pc ''compact'' = Some v3" "pc ''other'' = Some v4"
    using keys by auto
  have seqs: "create_frame_sequence (replicate N f) (Some 5) = Inr S"
    unfolding S_def using N by (rule create_frame_sequence_replicate)
  have lenS: "length S = M" using N by (simp add: S_def M_def)
  have an_map: "map (\<lambda>(center_idx, window_frames). analyse window_frames) S
                  = replicate M (bm, pc, comps)"
    unfolding lenS [symmetric] by (simp add: S_def an map_replicate_const comp_def)
  have pg: "pipeline_growth_rates fl (replicate M bm)
              = Fin 0 # replicate (M - 1) (constant_rate fl bm)"
    using growth_rates_constant [OF bm, of fl M]
    by (simp add: pipeline_growth_rates_def constant_rate_def)
  have ev: "detect_division_events fl (replicate M bm) (replicate M (int (length comps)))
              (Some (Fin 2)) (Some 1)
            = (if constant_spike fl bm (M - 1) (Fin 2) then map Suc [1..<M - 1] else [])"
    using events_constant [OF bm, of 1 fl M "int (length comps)" "Fin 2"]
    by (simp add: constant_spike_def constant_rate_def Let_def)
  have tc: "time_column fl M fps = Inr (map (\<lambda>i. f_div fl (f_int fl (int i)) fps) [0..<M])"
    using fps by (simp add: time_column_def comprehension_Inr)
  have M1: "M - 1 = N - 5" "Suc (N - 5) = M" "N - 4 = M" using N by (simp_all add: M_def)
  show ?thesis
    unfolding run_inference_pipeline_def seqs
    using M1
    by (simp add: Let_def an_map lenS pg ev tc v comprehension_lookup_replicate
        data_frame_rows_def split: option.splits)
qed

lemma constant_rate_real:
  assumes "0 < bm"
  shows "\<exists>a. a < 0 \<and> constant_rate real_ops bm = Fin a"
proof -
  define e :: real where "e = 4722366482869645 / 2 ^ 72"
  have e: "lit_1e_6 = Fin e" "0 < e"
    unfolding e_def lit_1e_6_def by simp_all
  define q where "q = real_of_int bm / (real_of_int bm + e)"
  have b: "0 < real_of_int bm" using assms by simp
  have den: "0 < real_of_int bm + e" using b e(2) by simp
  have q: "0 < q" "q < 1" using b e(2) den by (simp_all add: q_def)
  have "constant_rate real_ops bm = flog (Fin q)"
    unfolding constant_rate_def real_ops_simps e(1) q_def using den by simp
  also have "\<dots> = Fin (ln q)" using q(1) by simp
  finally have "constant_rate real_ops bm = Fin (ln q)" .
  moreover have "ln q < 0" using q by simp
  ultimately show ?thesis by blast
qed

lemma constant_spike_real:
  assumes "0 < bm" and "0 < n"
  shows "\<not> constant_spike real_ops bm n k"
proof -
  obtain a where a: "constant_rate real_ops bm = Fin a"
    using constant_rate_real [OF assms(1)] by blast
  have "fstd (replicate n (Fin a)) = Fin 0" using assms(2) by (rule fstd_constant)
  then show ?thesis by (simp add: constant_spike_def a Let_def)
qed




end
